theory Spec2Isabelle
  imports Main "HOL-Library.Sublist"
begin

section \<open>JavaScript values used by \<open>js/core/src/genkit.ts\<close>\<close>

text \<open>
  A JavaScript \<open>number\<close> is \<open>NaN\<close>, or an integer of magnitude below \<open>2^53\<close>, which a
  double holds exactly (\<open>Num n\<close>; both zeros are \<open>Num 0\<close>), or any other number (\<open>Other\<close>:
  a fraction, a number of magnitude \<open>2^53\<close> or more, an infinity). An optional property
  (\<open>port?: number\<close>) is an \<open>option\<close>, with \<open>None\<close> for \<open>undefined\<close>.
\<close>

datatype jsnum = NaN | Num int | Other

text \<open>
  Truthiness, as the operators \<open>||\<close>, \<open>!\<close> and \<open>? :\<close> test it: \<open>NaN\<close> and the zeros are
  falsy, every other number is truthy; the empty string is falsy.
\<close>

fun truthy_num :: "jsnum \<Rightarrow> bool" where
  "truthy_num NaN = False"
| "truthy_num (Num n) = (n \<noteq> 0)"
| "truthy_num Other = True"

definition truthy_str :: "string \<Rightarrow> bool" where
  "truthy_str s = (s \<noteq> [])"

text \<open>\<open>a || b\<close> on numbers, the left operand possibly \<open>undefined\<close>.\<close>

definition js_or :: "jsnum option \<Rightarrow> jsnum \<Rightarrow> jsnum" where
  "js_or a b = (case a of None \<Rightarrow> b | Some x \<Rightarrow> if truthy_num x then x else b)"

subsection \<open>\<open>parseInt\<close> with no radix argument\<close>

text \<open>
  A JavaScript string is modelled by its UTF-8 bytes. The white space that \<open>parseInt\<close>
  skips is the white space and the line terminators of the language: TAB, LF, VT, FF, CR
  and SP, and beyond ASCII U+00A0, U+1680, U+2000 to U+200A, U+2028, U+2029, U+202F,
  U+205F, U+3000 and U+FEFF. \<open>white_space_length\<close> is the number of bytes of the white
  space character at the head of the bytes, 0 if there is none.
\<close>

fun white_space_length :: "nat list \<Rightarrow> nat" where
  "white_space_length [] = 0"
| "white_space_length [a] = (if a \<in> {9, 10, 11, 12, 13, 32} then 1 else 0)"
| "white_space_length [a, b] =
     (if a \<in> {9, 10, 11, 12, 13, 32} then 1
      else if a = 194 \<and> b = 160 then 2
      else 0)"
| "white_space_length (a # b # c # rest) =
     (if a \<in> {9, 10, 11, 12, 13, 32} then 1
      else if a = 194 \<and> b = 160 then 2
      else if a = 225 \<and> b = 154 \<and> c = 128 then 3
      else if a = 226 \<and> b = 128 \<and> (128 \<le> c \<and> c \<le> 138 \<or> c \<in> {168, 169, 175}) then 3
      else if a = 226 \<and> b = 129 \<and> c = 159 then 3
      else if a = 227 \<and> b = 128 \<and> c = 128 then 3
      else if a = 239 \<and> b = 187 \<and> c = 191 then 3
      else 0)"

function skip_white_space :: "string \<Rightarrow> string" where
  "skip_white_space S =
     (let n = white_space_length (map of_char S)
      in if n = 0 then S else skip_white_space (drop n S))"
  by pat_completeness auto
termination
proof (relation "measure length")
  show "wf (measure length)" by simp
next
  fix S :: string and n :: nat
  assume "n = white_space_length (map of_char S)" and "n \<noteq> 0"
  then have "S \<noteq> []" and "0 < n" by auto
  then show "(drop n S, S) \<in> measure length" by simp
qed

declare skip_white_space.simps [simp del]

text \<open>
  The built-in \<open>parseInt(string)\<close>: leading white space is skipped, an optional sign is
  read, a prefix \<open>0x\<close> or \<open>0X\<close> selects radix 16 (radix 10 otherwise), and the longest
  prefix of digits of that radix is the value; with no digit the result is \<open>NaN\<close>. The
  value is rounded to a double: below \<open>2^53\<close> it is kept exactly, and from \<open>2^53\<close> on the
  result is a number of magnitude \<open>2^53\<close> or more.
\<close>

definition digit_val :: "char \<Rightarrow> nat option" where
  "digit_val c =
     (let k = (of_char c :: nat) in
      if 48 \<le> k \<and> k \<le> 57 then Some (k - 48)
      else if 97 \<le> k \<and> k \<le> 122 then Some (k - 87)
      else if 65 \<le> k \<and> k \<le> 90 then Some (k - 55)
      else None)"

definition is_digit :: "nat \<Rightarrow> char \<Rightarrow> bool" where
  "is_digit R c = (case digit_val c of None \<Rightarrow> False | Some d \<Rightarrow> d < R)"

definition digits_value :: "nat \<Rightarrow> string \<Rightarrow> int" where
  "digits_value R Z =
     foldl (\<lambda>acc c. case digit_val c of Some d \<Rightarrow> acc * int R + int d | None \<Rightarrow> acc) 0 Z"

definition parse_digits :: "nat \<Rightarrow> string \<Rightarrow> int option" where
  "parse_digits R S =
     (let Z = takeWhile (is_digit R) S in
      if Z = [] then None else Some (digits_value R Z))"

definition strip_sign :: "string \<Rightarrow> int \<times> string" where
  "strip_sign S =
     (case S of
        c # rest \<Rightarrow>
          if c = CHR ''-'' then (-1, rest)
          else if c = CHR ''+'' then (1, rest)
          else (1, S)
      | [] \<Rightarrow> (1, S))"

definition strip_prefix :: "string \<Rightarrow> nat \<times> string" where
  "strip_prefix S =
     (case S of
        a # b # rest \<Rightarrow>
          if a = CHR ''0'' \<and> (b = CHR ''x'' \<or> b = CHR ''X'') then (16, rest) else (10, S)
      | _ \<Rightarrow> (10, S))"

definition parseInt :: "string \<Rightarrow> jsnum" where
  "parseInt str =
     (let S = skip_white_space str;
          (sign, S1) = strip_sign S;
          (R, S2) = strip_prefix S1
      in case parse_digits R S2 of
           None \<Rightarrow> NaN
         | Some v \<Rightarrow> if v < 2 ^ 53 then Num (sign * v) else Other)"

text \<open>
  \<open>app.listen(port)\<close> of express calls \<open>listen\<close> of Node's HTTP server, which throws a
  \<open>RangeError\<close> unless the port is an integer from 0 to 65535. That the address is in use
  is reported later, by an event, and is outside the model.
\<close>

fun legal_port :: "jsnum \<Rightarrow> bool" where
  "legal_port (Num n) = (0 \<le> n \<and> n \<le> 65535)"
| "legal_port NaN = False"
| "legal_port Other = False"

section \<open>Options (\<open>GenkitOptions\<close>, \<open>FlowServerOptions\<close>)\<close>

text \<open>
  \<open>Flow\<close> is declared in \<open>flow.js\<close>; \<open>genkit.ts\<close> reads its \<open>name\<close> and its optional
  list of \<open>middleware\<close> (opaque request interceptors, here numbered). Its handler is
  \<open>fn\<close>.
\<close>

record Flow =
  name :: string
  middleware :: "nat list option"
  fn :: nat

text \<open>
  \<open>FlowConfig\<close> and \<open>StreamingFlowConfig\<close> (\<open>flow.js\<close>): the schemas are contracts
  checked when the flow runs and are left out; the handler \<open>fn\<close> is opaque, here numbered.
\<close>

record FlowConfig =
  config_name :: string
  config_middleware :: "nat list option"

text \<open>
  The fields \<open>cors\<close> and \<open>jsonParserOptions\<close> are handed unchanged to the \<open>cors\<close> and
  \<open>body-parser\<close> packages and are left out.
\<close>

record FlowServerOptions =
  enabled :: bool
  flows :: "Flow list option"
  port :: "jsnum option"
  pathPrefix :: "string option"

text \<open>
  \<open>TelemetryOptions\<close> (\<open>telemetryTypes.js\<close>) names the plugins that provide the
  instrumentation and the logger.
\<close>

record TelemetryOptions =
  instrumentation :: "string option"
  logger :: "string option"

section \<open>Errors\<close>

text \<open>
  The error kinds of the runtime, and \<open>Error\<close> for a JavaScript \<open>new Error(message)\<close>
  or a Go \<open>errors.New(message)\<close>. \<open>Cancelled\<close> is the cancellation-kind error, and
  \<open>RangeError\<close> the error that \<open>listen\<close> throws for a port out of range.
\<close>

datatype error =
    DuplicateNameError
  | ValidationError
  | UnsupportedCapabilityError
  | ToolNotFoundError
  | ToolLoopExceededError
  | Cancelled
  | RangeError
  | Error string

section \<open>Registry\<close>

text \<open>
  What a plugin's initializer resolves to (\<open>plugin.js\<close>): \<open>genkit.ts\<close> reads
  \<open>plugin?.telemetry?.instrumentation\<close> and \<open>plugin?.telemetry?.logger\<close>, each a provider
  whose \<open>value\<close> is a configuration (opaque, here numbered).
\<close>

record PluginValue =
  telemetry_instrumentation :: "nat option"
  telemetry_logger :: "nat option"

text \<open>
  A \<open>PluginProvider\<close> is a name and an initializer \<open>() => Promise<PluginValue>\<close>. The
  initializer is effectful and may fail; what it settles with may differ from one run to
  the next, so it is a function of the number of initializer runs the process has made
  before it starts.
\<close>

record PluginProvider =
  plugin_name :: string
  initializer :: "nat \<Rightarrow> error + PluginValue"

record Action =
  action_kind :: string
  action_name :: string
  action_handler :: nat

text \<open>
  Modelled from the spec: the class \<open>Registry\<close> of \<open>registry.js\<close>, which is not among the
  sources. A Registry is a table of Actions keyed by (kind, name), a table of plugin
  providers keyed by name, and the memoized result of each plugin's initializer. Child
  registries are not modelled: \<open>new Registry()\<close> has no parent.
\<close>

record Registry =
  actions :: "(string \<times> string) \<rightharpoonup> Action"
  pluginsByName :: "string \<rightharpoonup> PluginProvider"
  pluginCache :: "string \<rightharpoonup> (error + PluginValue)"

definition empty_Registry :: Registry where
  "empty_Registry = \<lparr> actions = Map.empty, pluginsByName = Map.empty, pluginCache = Map.empty \<rparr>"

section \<open>The process\<close>

datatype route_handler =
    Middleware nat
  | ExpressHandler string nat

text \<open>An HTTP server made by \<open>app.listen(port)\<close>, with the \<open>app.post\<close> routes in order.\<close>

record Server =
  listen_port :: jsnum
  routes :: "(string \<times> route_handler) list"

record ReflectionServer =
  reflection_registry :: nat

text \<open>
  The state of the host process that \<open>genkit.ts\<close> reads and writes: \<open>process.env\<close>; the
  Registry objects, by reference, with the next free reference; the registry that the
  module-level functions of \<open>registry.js\<close> act on (the ambient registry, rebound by
  \<open>runWithRegistry\<close>); the log of initializer runs as (registry, plugin name); the HTTP
  servers listening; and the Reflection servers started.
\<close>

record process =
  env :: "string \<rightharpoonup> string"
  registries :: "nat \<Rightarrow> Registry"
  nextRef :: nat
  currentRegistry :: nat
  initLog :: "(nat \<times> string) list"
  httpServers :: "Server list"
  reflectionServers :: "ReflectionServer list"

text \<open>
  Modelled from the spec: \<open>new Registry()\<close> makes an empty Registry at the next free
  reference; \<open>put_Registry\<close> writes a Registry back to its reference.
\<close>

definition new_Registry :: "process \<Rightarrow> nat \<times> process" where
  "new_Registry w =
     (nextRef w,
      w\<lparr> registries := (registries w)(nextRef w := empty_Registry),
         nextRef := Suc (nextRef w) \<rparr>)"

definition put_Registry :: "nat \<Rightarrow> Registry \<Rightarrow> process \<Rightarrow> process" where
  "put_Registry r reg w = w\<lparr> registries := (registries w)(r := reg) \<rparr>"

subsection \<open>Operations of one Registry\<close>

text \<open>
  Modelled from the spec: \<open>registerAction(action)\<close> fails with \<open>DuplicateNameError\<close> if the
  (kind, name) pair already exists.
\<close>

definition registerAction :: "nat \<Rightarrow> Action \<Rightarrow> process \<Rightarrow> (error + unit) \<times> process" where
  "registerAction r a w =
     (let reg = registries w r; key = (action_kind a, action_name a) in
      if key \<in> dom (actions reg) then (Inl DuplicateNameError, w)
      else (Inr (), put_Registry r (reg\<lparr> actions := (actions reg)(key \<mapsto> a) \<rparr>) w))"

text \<open>Modelled from the spec: \<open>lookupAction(kind, name) -> Action | not found\<close>.\<close>

definition lookupAction :: "nat \<Rightarrow> string \<Rightarrow> string \<Rightarrow> process \<Rightarrow> Action option" where
  "lookupAction r kind nm w = actions (registries w r) (kind, nm)"

text \<open>
  Modelled from the spec: \<open>registerPlugin(provider)\<close> fails with \<open>DuplicateNameError\<close> on
  name collision; it does not invoke the initializer.
\<close>

definition registerPlugin :: "nat \<Rightarrow> string \<Rightarrow> PluginProvider \<Rightarrow> process \<Rightarrow> (error + unit) \<times> process" where
  "registerPlugin r nm provider w =
     (let reg = registries w r in
      if nm \<in> dom (pluginsByName reg) then (Inl DuplicateNameError, w)
      else (Inr (), put_Registry r (reg\<lparr> pluginsByName := (pluginsByName reg)(nm \<mapsto> provider) \<rparr>) w))"

text \<open>
  Modelled from the spec: \<open>resolvePlugin(name)\<close>. The first call runs the initializer and
  stores what it settles with, value or failure; every later call returns what is stored.
  The stored result stands for the initialization promise, which is stored when the
  initializer starts. A name with no provider resolves to \<open>undefined\<close> (the callers in
  \<open>genkit.ts\<close> read the result through \<open>plugin?.\<close>).
\<close>

definition resolvePlugin :: "nat \<Rightarrow> string \<Rightarrow> process \<Rightarrow> (error + PluginValue option) \<times> process" where
  "resolvePlugin r nm w =
     (let reg = registries w r in
      case pluginCache reg nm of
        Some (Inl e) \<Rightarrow> (Inl e, w)
      | Some (Inr v) \<Rightarrow> (Inr (Some v), w)
      | None \<Rightarrow>
          (case pluginsByName reg nm of
             None \<Rightarrow> (Inr None, w)
           | Some provider \<Rightarrow>
               (let res = initializer provider (length (initLog w));
                    w1 = w\<lparr> initLog := initLog w @ [(r, nm)] \<rparr>;
                    w2 = put_Registry r (reg\<lparr> pluginCache := (pluginCache reg)(nm \<mapsto> res) \<rparr>) w1
                in (case res of Inl e \<Rightarrow> (Inl e, w2) | Inr v \<Rightarrow> (Inr (Some v), w2)))))"

subsection \<open>The module-level functions of \<open>registry.js\<close>\<close>

text \<open>
  Modelled from the spec: the functions that \<open>genkit.ts\<close> imports from \<open>registry.js\<close> act on
  the ambient registry; \<open>runWithRegistry(registry, fn)\<close> binds it while \<open>fn\<close> runs and
  restores the earlier binding afterwards, also when \<open>fn\<close> throws.
\<close>

definition runWithRegistry :: "nat \<Rightarrow> (process \<Rightarrow> 'a \<times> process) \<Rightarrow> process \<Rightarrow> 'a \<times> process" where
  "runWithRegistry r f w =
     (let (res, w1) = f (w\<lparr> currentRegistry := r \<rparr>)
      in (res, w1\<lparr> currentRegistry := currentRegistry w \<rparr>))"

definition registerPluginProvider :: "string \<Rightarrow> PluginProvider \<Rightarrow> process \<Rightarrow> (error + unit) \<times> process" where
  "registerPluginProvider nm provider w = registerPlugin (currentRegistry w) nm provider w"

definition initializePlugin :: "string \<Rightarrow> process \<Rightarrow> (error + PluginValue option) \<times> process" where
  "initializePlugin nm w = resolvePlugin (currentRegistry w) nm w"

text \<open>
  Modelled from the spec: \<open>defineFlow\<close> and \<open>defineStreamingFlow\<close> of \<open>flow.js\<close>. A Flow is a
  thin Action specialization owned by the Registry it is defined against: defining it
  registers an Action of kind \<open>flow\<close> under the flow's name in the ambient registry.
\<close>

definition defineFlow :: "FlowConfig \<Rightarrow> nat \<Rightarrow> process \<Rightarrow> (error + Flow) \<times> process" where
  "defineFlow config f w =
     (let flow = \<lparr> name = config_name config, middleware = config_middleware config, fn = f \<rparr>;
          (res, w1) = registerAction (currentRegistry w)
             \<lparr> action_kind = ''flow'', action_name = config_name config, action_handler = f \<rparr> w
      in case res of Inl e \<Rightarrow> (Inl e, w1) | Inr _ \<Rightarrow> (Inr flow, w1))"

definition defineStreamingFlow :: "FlowConfig \<Rightarrow> nat \<Rightarrow> process \<Rightarrow> (error + Flow) \<times> process" where
  "defineStreamingFlow config f w =
     (let flow = \<lparr> name = config_name config, middleware = config_middleware config, fn = f \<rparr>;
          (res, w1) = registerAction (currentRegistry w)
             \<lparr> action_kind = ''flow'', action_name = config_name config, action_handler = f \<rparr> w
      in case res of Inl e \<Rightarrow> (Inl e, w1) | Inr _ \<Rightarrow> (Inr flow, w1))"

text \<open>
  Modelled from the spec: \<open>ReflectionServer.start\<close> of \<open>reflection.js\<close>. Starting records
  the server among the Reflection servers of the process. Binding its address, which can
  fail with \<open>AddressInUseError\<close> without effect on the host, is outside the model.
\<close>

definition ReflectionServer_start :: "ReflectionServer \<Rightarrow> process \<Rightarrow> process" where
  "ReflectionServer_start rs w = w\<lparr> reflectionServers := reflectionServers w @ [rs] \<rparr>"

section \<open>The class \<open>Genkit\<close> (\<open>js/core/src/genkit.ts\<close>)\<close>

text \<open>
  \<open>GenkitOptions\<close>, with the fields that the class reads. The field \<open>flowServer\<close> of the
  options is \<open>flowServerOptions\<close> here, the name \<open>flowServer\<close> being the field of the
  class. Calls of the \<open>logger\<close> are not modelled.
\<close>

record GenkitOptions =
  plugins :: "PluginProvider list option"
  logLevel :: "string option"
  enableTracingAndMetrics :: "bool option"
  telemetry :: "TelemetryOptions option"
  flowServerOptions :: "FlowServerOptions option"

definition no_options :: GenkitOptions where
  "no_options = \<lparr> plugins = None, logLevel = None, enableTracingAndMetrics = None,
                   telemetry = None, flowServerOptions = None \<rparr>"

text \<open>
  The two async providers are closures: the default telemetry provider (\<open>None\<close>) or
  \<open>resolveTelemetryConfig(name)\<close>, \<open>resolveLoggerConfig(name)\<close> for a plugin name.
\<close>

record Genkit =
  options :: GenkitOptions
  registry :: nat
  telemetryConfig :: "string option"
  loggerConfig :: "string option"
  reflectionServer :: "ReflectionServer option"
  flowServer :: "Server option"
  registeredFlows :: "Flow list"

definition getCurrentEnv :: "process \<Rightarrow> string" where
  "getCurrentEnv w =
     (case env w ''GENKIT_ENV'' of
        Some s \<Rightarrow> if truthy_str s then s else ''prod''
      | None \<Rightarrow> ''prod'')"

definition isDevEnv :: "process \<Rightarrow> bool" where
  "isDevEnv w = (getCurrentEnv w = ''dev'')"

definition startReflectionServer :: "Genkit \<Rightarrow> process \<Rightarrow> Genkit \<times> process" where
  "startReflectionServer g w =
     (let rs = \<lparr> reflection_registry = registry g \<rparr>
      in (g\<lparr> reflectionServer := Some rs \<rparr>, ReflectionServer_start rs w))"

text \<open>The routes of one flow: its middleware, in order, then its handler.\<close>

definition flow_routes :: "nat \<Rightarrow> string \<Rightarrow> Flow \<Rightarrow> (string \<times> route_handler) list" where
  "flow_routes r pre flow =
     (let flowPath = ''/'' @ pre @ name flow in
      (case middleware flow of
         None \<Rightarrow> []
       | Some ms \<Rightarrow> map (\<lambda>m. (flowPath, Middleware m)) ms)
      @ [(flowPath, ExpressHandler (name flow) r)])"

definition startFlowServer :: "Genkit \<Rightarrow> process \<Rightarrow> (error + Genkit) \<times> process" where
  "startFlowServer g w =
     (case flowServerOptions (options g) of
        None \<Rightarrow> (Inr g, w)
      | Some fs \<Rightarrow>
          if \<not> enabled fs then (Inr g, w)
          else
            (let envPort = (case env w ''PORT'' of
                              Some s \<Rightarrow> if truthy_str s then parseInt s else Num 0
                            | None \<Rightarrow> Num 0);
                 p = js_or (Some (js_or (port fs) envPort)) (Num 3400);
                 pre = (case pathPrefix fs of Some x \<Rightarrow> x | None \<Rightarrow> []);
                 fl = (case flows fs of Some x \<Rightarrow> x | None \<Rightarrow> registeredFlows g);
                 srv = \<lparr> listen_port = p,
                         routes = concat (map (flow_routes (registry g) pre) fl) \<rparr>
             in if legal_port p
                then (Inr (g\<lparr> flowServer := Some srv \<rparr>),
                      w\<lparr> httpServers := httpServers w @ [srv] \<rparr>)
                else (Inl RangeError, w)))"

text \<open>
  \<open>plugins?.forEach\<close>: each plugin is registered under its name with a provider that wraps
  its initializer; a registration that throws ends the loop.
\<close>

fun register_plugins :: "PluginProvider list \<Rightarrow> process \<Rightarrow> (error + unit) \<times> process" where
  "register_plugins [] w = (Inr (), w)"
| "register_plugins (plugin # rest) w =
     (case registerPluginProvider (plugin_name plugin)
             \<lparr> plugin_name = plugin_name plugin, initializer = initializer plugin \<rparr> w of
        (Inl e, w1) \<Rightarrow> (Inl e, w1)
      | (Inr _, w1) \<Rightarrow> register_plugins rest w1)"

definition configure :: "Genkit \<Rightarrow> process \<Rightarrow> (error + Genkit) \<times> process" where
  "configure g w =
     (case register_plugins (case plugins (options g) of None \<Rightarrow> [] | Some ps \<Rightarrow> ps) w of
        (Inl e, w1) \<Rightarrow> (Inl e, w1)
      | (Inr _, w1) \<Rightarrow>
          (let g1 = (case telemetry (options g) of
                       None \<Rightarrow> g
                     | Some t \<Rightarrow>
                         (case logger t of
                            None \<Rightarrow> g
                          | Some loggerPluginName \<Rightarrow>
                              if truthy_str loggerPluginName
                              then g\<lparr> loggerConfig := Some loggerPluginName \<rparr> else g));
               g2 = (case telemetry (options g) of
                       None \<Rightarrow> g1
                     | Some t \<Rightarrow>
                         (case instrumentation t of
                            None \<Rightarrow> g1
                          | Some telemetryPluginName \<Rightarrow>
                              if truthy_str telemetryPluginName
                              then g1\<lparr> telemetryConfig := Some telemetryPluginName \<rparr> else g1))
           in (Inr g2, w1)))"

text \<open>
  The constructor; a throw of \<open>configure\<close> or of \<open>startFlowServer\<close> is a throw of the
  constructor.
\<close>

definition new_Genkit :: "GenkitOptions option \<Rightarrow> process \<Rightarrow> (error + Genkit) \<times> process" where
  "new_Genkit opts w =
     (let (r, w1) = new_Registry w;
          g0 = \<lparr> options = (case opts of Some x \<Rightarrow> x | None \<Rightarrow> no_options),
                 registry = r, telemetryConfig = None, loggerConfig = None,
                 reflectionServer = None, flowServer = None, registeredFlows = [] \<rparr>;
          (res, w2) = runWithRegistry r (configure g0) w1
      in case res of
           Inl e \<Rightarrow> (Inl e, w2)
         | Inr g1 \<Rightarrow>
             (let (g2, w3) = (if isDevEnv w2 then startReflectionServer g1 w2 else (g1, w2))
              in startFlowServer g2 w3))"

definition Genkit_defineFlow :: "Genkit \<Rightarrow> FlowConfig \<Rightarrow> nat \<Rightarrow> process \<Rightarrow> (error + Flow \<times> Genkit) \<times> process" where
  "Genkit_defineFlow g config f w =
     (let (res, w1) = runWithRegistry (registry g) (defineFlow config f) w
      in case res of
           Inl e \<Rightarrow> (Inl e, w1)
         | Inr flow \<Rightarrow> (Inr (flow, g\<lparr> registeredFlows := registeredFlows g @ [flow] \<rparr>), w1))"

definition Genkit_defineStreamingFlow :: "Genkit \<Rightarrow> FlowConfig \<Rightarrow> nat \<Rightarrow> process \<Rightarrow> (error + Flow \<times> Genkit) \<times> process" where
  "Genkit_defineStreamingFlow g config f w =
     (let (res, w1) = runWithRegistry (registry g) (defineStreamingFlow config f) w
      in case res of
           Inl e \<Rightarrow> (Inl e, w1)
         | Inr flow \<Rightarrow> (Inr (flow, g\<lparr> registeredFlows := registeredFlows g @ [flow] \<rparr>), w1))"

text \<open>
  The default telemetry provider of the constructor resolves to a configuration whose
  \<open>getConfig()\<close> is empty; a plugin provides a configuration by number.
\<close>

datatype TelemetryConfig = DefaultTelemetryConfig | PluginTelemetryConfig nat

definition resolveTelemetryConfig :: "string \<Rightarrow> process \<Rightarrow> (error + TelemetryConfig) \<times> process" where
  "resolveTelemetryConfig pluginName w =
     (case initializePlugin pluginName w of
        (Inl e, w1) \<Rightarrow> (Inl e, w1)
      | (Inr plugin, w1) \<Rightarrow>
          (case (case plugin of None \<Rightarrow> None | Some pv \<Rightarrow> telemetry_instrumentation pv) of
             None \<Rightarrow>
               (Inl (Error (''Unable to resolve provider `telemetry.instrumentation` for plugin: ''
                            @ pluginName)), w1)
           | Some v \<Rightarrow> (Inr (PluginTelemetryConfig v), w1)))"

definition resolveLoggerConfig :: "string \<Rightarrow> process \<Rightarrow> (error + nat) \<times> process" where
  "resolveLoggerConfig pluginName w =
     (case initializePlugin pluginName w of
        (Inl e, w1) \<Rightarrow> (Inl e, w1)
      | (Inr plugin, w1) \<Rightarrow>
          (case (case plugin of None \<Rightarrow> None | Some pv \<Rightarrow> telemetry_logger pv) of
             None \<Rightarrow>
               (Inl (Error (''Unable to resolve provider `telemetry.logger` for plugin: ''
                            @ pluginName)), w1)
           | Some v \<Rightarrow> (Inr v, w1)))"

definition getTelemetryConfig :: "Genkit \<Rightarrow> process \<Rightarrow> (error + TelemetryConfig) \<times> process" where
  "getTelemetryConfig g w =
     (case telemetryConfig g of
        None \<Rightarrow> (Inr DefaultTelemetryConfig, w)
      | Some telemetryPluginName \<Rightarrow> resolveTelemetryConfig telemetryPluginName w)"

subsection \<open>Notions used by the statements about \<open>genkit.ts\<close>\<close>

text \<open>The truthiness of \<open>this.options.flowServer?.enabled\<close>.\<close>

definition flowServer_enabled :: "GenkitOptions \<Rightarrow> bool" where
  "flowServer_enabled opts =
     (case flowServerOptions opts of None \<Rightarrow> False | Some fs \<Rightarrow> enabled fs)"

text \<open>The flows that the flow server exposes, and the prefix of their paths.\<close>

definition exposed_flows :: "Genkit \<Rightarrow> FlowServerOptions \<Rightarrow> Flow list" where
  "exposed_flows g fs = (case flows fs of Some x \<Rightarrow> x | None \<Rightarrow> registeredFlows g)"

definition path_prefix :: "FlowServerOptions \<Rightarrow> string" where
  "path_prefix fs = (case pathPrefix fs of Some x \<Rightarrow> x | None \<Rightarrow> [])"

fun is_flow_handler :: "string \<times> route_handler \<Rightarrow> bool" where
  "is_flow_handler (p, ExpressHandler n r) = True"
| "is_flow_handler (p, Middleware m) = False"

text \<open>
  The port in the words of the specification: the first defined value among
  \<open>options.flowServer.port\<close>, the integer value of \<open>PORT\<close>, and 3400.
\<close>

definition first_defined_port :: "jsnum option \<Rightarrow> string option \<Rightarrow> jsnum" where
  "first_defined_port p e =
     (case p of
        Some x \<Rightarrow> x
      | None \<Rightarrow> (case e of Some s \<Rightarrow> parseInt s | None \<Rightarrow> Num 3400))"

text \<open>
  The first truthy value among the three: a port that is \<open>undefined\<close>, \<open>0\<close> or \<open>NaN\<close> is
  passed over, and so is a \<open>PORT\<close> that is unset, empty, or parsed to \<open>0\<close> or \<open>NaN\<close>.
\<close>

definition env_port_or_default :: "string option \<Rightarrow> jsnum" where
  "env_port_or_default e =
     (case e of
        Some s \<Rightarrow> if s \<noteq> [] \<and> truthy_num (parseInt s) then parseInt s else Num 3400
      | None \<Rightarrow> Num 3400)"

definition first_truthy_port :: "jsnum option \<Rightarrow> string option \<Rightarrow> jsnum" where
  "first_truthy_port p e =
     (case p of
        Some x \<Rightarrow> if truthy_num x then x else env_port_or_default e
      | None \<Rightarrow> env_port_or_default e)"

text \<open>
  A process at start: the given environment, the default registry at reference 0 as the
  ambient one, nothing initialized and nothing listening.
\<close>

definition initial_process :: "(string \<rightharpoonup> string) \<Rightarrow> process" where
  "initial_process e =
     \<lparr> env = e, registries = (\<lambda>_. empty_Registry), nextRef = 1, currentRegistry = 0,
       initLog = [], httpServers = [], reflectionServers = [] \<rparr>"

text \<open>Two flows, and an instance in which they were defined.\<close>

definition hello_flow :: Flow where
  "hello_flow = \<lparr> name = ''hello'', middleware = Some [7], fn = 1 \<rparr>"

definition bye_flow :: Flow where
  "bye_flow = \<lparr> name = ''bye'', middleware = None, fn = 2 \<rparr>"

definition genkit_with :: "FlowServerOptions option \<Rightarrow> Genkit" where
  "genkit_with fso =
     \<lparr> options = no_options\<lparr> flowServerOptions := fso \<rparr>,
       registry = 1, telemetryConfig = None, loggerConfig = None,
       reflectionServer = None, flowServer = None,
       registeredFlows = [hello_flow, bye_flow] \<rparr>"

section \<open>Runs of the host\<close>

text \<open>
  What a host can do to the registries of its process, in any order: make a Registry,
  construct a Genkit instance, and register an Action, register a plugin or resolve a
  plugin on a Registry it holds. A reference that no Registry has yet is not held by
  anyone, so an operation on it does nothing.
\<close>

datatype host_op =
    NewRegistry
  | NewGenkit "GenkitOptions option"
  | RegisterAction nat Action
  | RegisterPlugin nat string PluginProvider
  | ResolvePlugin nat string

fun apply_op :: "host_op \<Rightarrow> process \<Rightarrow> process" where
  "apply_op NewRegistry w = snd (new_Registry w)"
| "apply_op (NewGenkit opts) w = snd (new_Genkit opts w)"
| "apply_op (RegisterAction r a) w = (if r < nextRef w then snd (registerAction r a w) else w)"
| "apply_op (RegisterPlugin r nm p) w = (if r < nextRef w then snd (registerPlugin r nm p w) else w)"
| "apply_op (ResolvePlugin r nm) w = (if r < nextRef w then snd (resolvePlugin r nm w) else w)"

fun run_ops :: "host_op list \<Rightarrow> process \<Rightarrow> process" where
  "run_ops [] w = w"
| "run_ops (x # xs) w = run_ops xs (apply_op x w)"

subsection \<open>Notions used by the statements about plugin memoization\<close>

text \<open>
  For a registry \<open>r\<close> and a plugin name: what is memoized, the provider registered, how
  often the initializer has run for that registry, and that number plus one while nothing
  is memoized yet (the runs the registry may still come to).
\<close>

definition cached :: "nat \<Rightarrow> string \<Rightarrow> process \<Rightarrow> (error + PluginValue) option" where
  "cached r nm w = pluginCache (registries w r) nm"

definition provider_of :: "nat \<Rightarrow> string \<Rightarrow> process \<Rightarrow> PluginProvider option" where
  "provider_of r nm w = pluginsByName (registries w r) nm"

definition runs :: "nat \<Rightarrow> string \<Rightarrow> process \<Rightarrow> nat" where
  "runs r nm w = count_list (initLog w) (r, nm)"

definition owed :: "nat \<Rightarrow> string \<Rightarrow> process \<Rightarrow> nat" where
  "owed r nm w = runs r nm w + (if cached r nm w = None then 1 else 0)"

text \<open>How a settled initializer is handed to the caller of \<open>resolvePlugin\<close>.\<close>

definition settled :: "error + PluginValue \<Rightarrow> error + PluginValue option" where
  "settled x = (case x of Inl e \<Rightarrow> Inl e | Inr v \<Rightarrow> Inr (Some v))"

text \<open>
  A step of the process that keeps a registry \<open>r\<close> it already has, the provider of the
  name, what is memoized for it, and does not raise the runs owed.
\<close>

definition memo_step :: "nat \<Rightarrow> string \<Rightarrow> process \<Rightarrow> process \<Rightarrow> bool" where
  "memo_step r nm w w' \<longleftrightarrow>
     (r < nextRef w \<longrightarrow>
        r < nextRef w' \<and>
        (\<forall>p. provider_of r nm w = Some p \<longrightarrow> provider_of r nm w' = Some p) \<and>
        (\<forall>x. cached r nm w = Some x \<longrightarrow> cached r nm w' = Some x) \<and>
        owed r nm w' \<le> owed r nm w)"

text \<open>
  A plugin whose initializer fails when it is the first initializer run of the process
  and would succeed on any later run.
\<close>

definition flaky_plugin :: PluginProvider where
  "flaky_plugin =
     \<lparr> plugin_name = ''creds'',
       initializer = (\<lambda>n. if n = 0 then Inl (Error ''no credentials'')
                           else Inr \<lparr> telemetry_instrumentation = Some 5, telemetry_logger = None \<rparr>) \<rparr>"

subsection \<open>Two tenants that name their telemetry plugin alike\<close>

text \<open>
  A plugin \<open>creds\<close> whose initializer succeeds with the telemetry configuration \<open>v\<close>, and
  the options of an instance that loads it and takes its telemetry from it.
\<close>

definition telemetry_plugin :: "nat \<Rightarrow> PluginProvider" where
  "telemetry_plugin v =
     \<lparr> plugin_name = ''creds'',
       initializer = (\<lambda>n. Inr \<lparr> telemetry_instrumentation = Some v, telemetry_logger = None \<rparr>) \<rparr>"

definition telemetry_options :: "nat \<Rightarrow> GenkitOptions" where
  "telemetry_options v =
     no_options\<lparr> plugins := Some [telemetry_plugin v],
                 telemetry := Some \<lparr> instrumentation = Some ''creds'', logger = None \<rparr> \<rparr>"

text \<open>
  The host constructs two instances, the first with the telemetry configuration 5 and the
  second with 7.
\<close>

definition first_tenant :: "(error + Genkit) \<times> process" where
  "first_tenant = new_Genkit (Some (telemetry_options 5)) (initial_process Map.empty)"

definition second_tenant :: "(error + Genkit) \<times> process" where
  "second_tenant = new_Genkit (Some (telemetry_options 7)) (snd first_tenant)"

section \<open>The Generation Loop\<close>

text \<open>
  Modelled from the spec: the data of the Generation Loop (section 3 of the
  specification); the runtime that declares them is not among the sources. A message has
  a role and ordered content parts; a \<open>ToolRequest\<close> names a tool and carries its input
  and the \<open>ref\<close> token set by the model; a \<open>ToolResponse\<close> echoes the \<open>ref\<close> and carries the
  tool's output, or the error the tool raised. Inputs and outputs are opaque data, here
  strings.
\<close>

record ToolRequest =
  request_name :: string
  request_ref :: string
  request_input :: string

record ToolResponse =
  response_name :: string
  response_ref :: string
  response_output :: "error + string"

datatype part = TextPart string | ToolRequestPart ToolRequest | ToolResponsePart ToolResponse

datatype role = UserRole | ModelRole | ToolRole | SystemRole

record Message =
  role :: role
  content :: "part list"

datatype finish_reason = Stop | ToolCall | Length | FinishError | OtherReason string

record Candidate =
  message :: Message
  finishReason :: finish_reason

text \<open>A response has one or more ranked candidates: the top-ranked one and the others.\<close>

record GenerateResponse =
  top_candidate :: Candidate
  other_candidates :: "Candidate list"

record GenerateRequest =
  messages :: "Message list"
  request_tools :: "string list"
  request_config :: "string option"

text \<open>A tool Action: its input contract and its handler, which may fail.\<close>

record Tool =
  accepts :: "string \<Rightarrow> bool"
  invoke :: "string \<Rightarrow> error + string"

text \<open>
  What one run of the loop is given: the model Action and whether its capability
  descriptor advertises tool support; the tool Actions of the Registry by name; the tool
  set \<open>T\<close> by name; the provider config; the caller's \<open>returnToolRequests\<close>; the configured
  maximum of round trips; and the cancellation signal, as it reads before the round trip
  at each value of the round-trip counter.
\<close>

record Generation =
  model :: "GenerateRequest \<Rightarrow> GenerateResponse"
  supportsTools :: bool
  toolActions :: "string \<rightharpoonup> Tool"
  toolSet :: "string list"
  config :: "string option"
  returnToolRequests :: bool
  maxRoundTrips :: nat
  cancelled :: "nat \<Rightarrow> bool"

text \<open>
  The state of a run: the history \<open>H\<close> and the round-trip counter, and three counts kept
  for the statements: the model invocations, the tool lookups and the tool invocations.
\<close>

record loop_state =
  history :: "Message list"
  roundTrips :: nat
  modelCalls :: nat
  toolLookups :: nat
  toolInvocations :: nat

record GenerateResult =
  candidate :: Candidate
  pendingRequests :: "ToolRequest list"

fun toolRequests :: "part list \<Rightarrow> ToolRequest list" where
  "toolRequests [] = []"
| "toolRequests (ToolRequestPart tr # ps) = tr # toolRequests ps"
| "toolRequests (_ # ps) = toolRequests ps"

text \<open>
  Modelled from the spec: step 3 (Resolve) for one ToolRequest. The runtime that performs
  it is not among the sources. The tool is looked up by name and is not found if it is
  absent from the Registry or not in \<open>T\<close>; its input is validated against the input
  contract; it is invoked, and its output, or the error it raised, is wrapped as a
  ToolResponse with the same \<open>ref\<close>. Lookup and contract errors abort the run.
\<close>

definition resolveToolRequest :: "Generation \<Rightarrow> ToolRequest \<Rightarrow> error + ToolResponse" where
  "resolveToolRequest G tr =
     (if request_name tr \<notin> set (toolSet G) then Inl ToolNotFoundError
      else case toolActions G (request_name tr) of
             None \<Rightarrow> Inl ToolNotFoundError
           | Some tool \<Rightarrow>
               if \<not> accepts tool (request_input tr) then Inl ValidationError
               else Inr \<lparr> response_name = request_name tr, response_ref = request_ref tr,
                          response_output = invoke tool (request_input tr) \<rparr>)"

text \<open>
  Modelled from the spec: the ToolRequests of a candidate, in order; and the responses of
  a round in request order, or the first error in request order.
\<close>

fun collect :: "(error + 'a) list \<Rightarrow> error + 'a list" where
  "collect [] = Inr []"
| "collect (Inl e # rs) = Inl e"
| "collect (Inr x # rs) = (case collect rs of Inl e \<Rightarrow> Inl e | Inr xs \<Rightarrow> Inr (x # xs))"

fun is_response :: "error + 'a \<Rightarrow> bool" where
  "is_response (Inr x) = True"
| "is_response (Inl e) = False"

text \<open>
  Modelled from the spec: the Generation Loop, steps 1 to 6, with the check of the
  cancellation signal before each round trip. All requests of the candidate are resolved
  (they run in parallel), each looked up once, and those that pass lookup and validation
  are invoked. The synthetic message carries the ToolResponses in request order.
\<close>

function generateLoop :: "Generation \<Rightarrow> loop_state \<Rightarrow> (error + GenerateResult) \<times> loop_state" where
  "generateLoop G s =
     (if cancelled G (roundTrips s) then (Inl Cancelled, s)
      else if toolSet G \<noteq> [] \<and> \<not> supportsTools G then (Inl UnsupportedCapabilityError, s)
      else
        (let response = model G \<lparr> messages = history s, request_tools = toolSet G,
                                   request_config = config G \<rparr>;
             s1 = s\<lparr> modelCalls := modelCalls s + 1 \<rparr>;
             top = top_candidate response;
             requests = toolRequests (content (message top))
         in if finishReason top \<noteq> ToolCall \<or> returnToolRequests G
            then (Inr \<lparr> candidate = top,
                        pendingRequests = (if returnToolRequests G then requests else []) \<rparr>, s1)
            else
              (let resolved = map (resolveToolRequest G) requests;
                   s2 = s1\<lparr> toolLookups := toolLookups s1 + length requests,
                            toolInvocations := toolInvocations s1 + length (filter is_response resolved) \<rparr>
               in case collect resolved of
                    Inl e \<Rightarrow> (Inl e, s2)
                  | Inr responses \<Rightarrow>
                      (let s3 = s2\<lparr> history := history s2 @
                                       [message top,
                                        \<lparr> role = ToolRole, content = map ToolResponsePart responses \<rparr>],
                                     roundTrips := roundTrips s2 + 1 \<rparr>
                       in if roundTrips s3 > maxRoundTrips G then (Inl ToolLoopExceededError, s3)
                          else generateLoop G s3))))"
  by pat_completeness auto
termination
  by (relation "measure (\<lambda>(G, s). maxRoundTrips G + 1 - roundTrips s)") auto

declare generateLoop.simps [simp del]

definition initial_state :: "Message list \<Rightarrow> loop_state" where
  "initial_state H =
     \<lparr> history = H, roundTrips = 0, modelCalls = 0, toolLookups = 0, toolInvocations = 0 \<rparr>"

definition generate :: "Generation \<Rightarrow> Message list \<Rightarrow> (error + GenerateResult) \<times> loop_state" where
  "generate G H = generateLoop G (initial_state H)"

subsection \<open>Notions used by the statements about the Generation Loop\<close>

text \<open>The request of the first model call of a run on the history \<open>H\<close>.\<close>

definition first_request :: "Generation \<Rightarrow> Message list \<Rightarrow> GenerateRequest" where
  "first_request G H = \<lparr> messages = H, request_tools = toolSet G, request_config = config G \<rparr>"

text \<open>
  The tool of the documentation (\<open>docs/tool-calling.md\<close>): \<open>specialTool\<close> takes a meal,
  one of breakfast, lunch and dinner, and returns today's special.
\<close>

definition specialTool :: Tool where
  "specialTool =
     \<lparr> accepts = (\<lambda>i. i \<in> {''breakfast'', ''lunch'', ''dinner''}),
       invoke = (\<lambda>i. Inr ''Baked beans on toast'') \<rparr>"

text \<open>A model stub that answers every request with a tool call of the given tool.\<close>

definition tool_call_response :: "string \<Rightarrow> GenerateResponse" where
  "tool_call_response tool_name =
     \<lparr> top_candidate =
         \<lparr> message = \<lparr> role = ModelRole,
                        content = [ToolRequestPart \<lparr> request_name = tool_name, request_ref = ''r1'',
                                                      request_input = ''lunch'' \<rparr>] \<rparr>,
           finishReason = ToolCall \<rparr>,
       other_candidates = [] \<rparr>"

definition stub_generation :: "string \<Rightarrow> bool \<Rightarrow> nat \<Rightarrow> Generation" where
  "stub_generation tool_name manual n =
     \<lparr> model = (\<lambda>req. tool_call_response tool_name),
       supportsTools = True,
       toolActions = [''specialTool'' \<mapsto> specialTool],
       toolSet = [''specialTool''],
       config = None,
       returnToolRequests = manual,
       maxRoundTrips = n,
       cancelled = (\<lambda>k. False) \<rparr>"

text \<open>
  The scenario of the specification: the model stub asks for \<open>specialTool\<close> until the
  history holds a tool message, and then stops with its final message.
\<close>

definition beans_message :: Message where
  "beans_message = \<lparr> role = ModelRole, content = [TextPart ''Enjoy your beans on toast!''] \<rparr>"

definition beans_model :: "GenerateRequest \<Rightarrow> GenerateResponse" where
  "beans_model req =
     (if \<exists>m \<in> set (messages req). role m = ToolRole
      then \<lparr> top_candidate = \<lparr> message = beans_message, finishReason = Stop \<rparr>,
             other_candidates = [] \<rparr>
      else tool_call_response ''specialTool'')"

definition beans_generation :: Generation where
  "beans_generation = (stub_generation ''specialTool'' False 5)\<lparr> model := beans_model \<rparr>"

definition lunch_prompt :: "Message list" where
  "lunch_prompt = [\<lparr> role = UserRole, content = [TextPart ''What is for lunch?''] \<rparr>]"



section \<open>Streaming flows\<close>

subsection \<open>Handlers\<close>

text \<open>
  Modelled from the spec: a handler \<open>(input, streamSink?) -> output\<close>. A run of a
  streaming handler, seen from the runtime: the handler returns its output, raises an
  error, or calls the stream sink with a chunk and goes on according to what the sink
  returned (\<open>None\<close> for success, as Go's \<open>nil\<close> error).
\<close>

datatype ('c, 'o) handler_run =
    Return 'o
  | Raise error
  | Emit 'c "error option \<Rightarrow> ('c, 'o) handler_run"

text \<open>Decimal digits of an integer, as \<open>fmt.Sprintf("%d", n)\<close> prints it.\<close>

function dec_nat :: "nat \<Rightarrow> string" where
  "dec_nat n =
     (if n < 10 then [''0123456789'' ! n]
      else dec_nat (n div 10) @ [''0123456789'' ! (n mod 10)])"
  by pat_completeness auto
termination
  by (relation "measure id") auto

declare dec_nat.simps [simp del]

definition dec_int :: "int \<Rightarrow> string" where
  "dec_int n = (if n < 0 then CHR ''-'' # dec_nat (nat (- n)) else dec_nat (nat n))"

text \<open>
  The two streaming flows of the Go test program (\<open>src/unnamed/part_001\<close>). The chunk is
  the struct \<open>chunk{Count int}\<close>; \<open>count\<close> and \<open>i\<close> are Go \<open>int\<close>s, which do not overflow
  here since \<open>i\<close> stays below \<open>count\<close>. The callback \<open>cb\<close> is the stream sink; the flag says
  whether it is non-nil.
\<close>

record chunk =
  Count :: int

function streamy_loop :: "int \<Rightarrow> int \<Rightarrow> (chunk, string) handler_run" where
  "streamy_loop count i =
     (if i < count
      then Emit \<lparr> Count = i \<rparr>
             (\<lambda>err. case err of Some e \<Rightarrow> Raise e | None \<Rightarrow> streamy_loop count (i + 1))
      else Return (''done '' @ dec_int count @ '', streamed: '' @ dec_int i @ '' times''))"
  by pat_completeness auto
termination
  by (relation "measure (\<lambda>(count, i). nat (count - i))") auto

declare streamy_loop.simps [simp del]

definition streamy :: "int \<Rightarrow> bool \<Rightarrow> (chunk, string) handler_run" where
  "streamy count cb_non_nil =
     (if cb_non_nil then streamy_loop count 0
      else Return (''done '' @ dec_int count @ '', streamed: '' @ dec_int 0 @ '' times''))"

function streamyThrowy_loop :: "int \<Rightarrow> int \<Rightarrow> (chunk, string) handler_run" where
  "streamyThrowy_loop count i =
     (if i < count
      then (if i = 3 then Raise (Error ''boom!'')
            else Emit \<lparr> Count = i \<rparr>
                   (\<lambda>err. case err of Some e \<Rightarrow> Raise e
                                     | None \<Rightarrow> streamyThrowy_loop count (i + 1)))
      else Return (''done: '' @ dec_int count @ '', streamed: '' @ dec_int i @ '' times''))"
  by pat_completeness auto
termination
  by (relation "measure (\<lambda>(count, i). nat (count - i))") auto

declare streamyThrowy_loop.simps [simp del]

definition streamyThrowy :: "int \<Rightarrow> bool \<Rightarrow> (chunk, string) handler_run" where
  "streamyThrowy count cb_non_nil =
     (if cb_non_nil then streamyThrowy_loop count 0
      else Return (''done: '' @ dec_int count @ '', streamed: '' @ dec_int 0 @ '' times''))"

subsection \<open>The stream of a flow\<close>

text \<open>
  Modelled from the spec: \<open>stream(input)\<close> of a Flow; the runtime that implements it is not
  among the sources. One execution of the handler, with a stream sink, has two views: the
  sequence of chunks and the final promise. A queue decouples the handler from the
  consumer. The state holds what is left of the handler's run (\<open>None\<close> once it has
  returned or raised), the chunks produced and not yet consumed, the chunks the consumer
  has observed, and the final promise (\<open>None\<close> while pending, then resolved with the
  output or rejected with the error).
\<close>

record ('c, 'o) stream_state =
  running :: "('c, 'o) handler_run option"
  queue :: "'c list"
  delivered :: "'c list"
  final :: "(error + 'o) option"

definition stream :: "('i \<Rightarrow> bool \<Rightarrow> ('c, 'o) handler_run) \<Rightarrow> 'i \<Rightarrow> ('c, 'o) stream_state" where
  "stream handler input =
     \<lparr> running = Some (handler input True), queue = [], delivered = [], final = None \<rparr>"

text \<open>
  Modelled from the spec: the two parties take steps in any order. A step of the handler
  runs it to its next call of the sink, which puts the chunk at the end of the queue and
  succeeds, or to its end, which settles the final promise. A step of the consumer takes
  the chunk at the head of the queue, if there is one.
\<close>

datatype party = Handler | Consumer

fun stream_step :: "party \<Rightarrow> ('c, 'o) stream_state \<Rightarrow> ('c, 'o) stream_state" where
  "stream_step Handler s =
     (case running s of
        None \<Rightarrow> s
      | Some (Emit c k) \<Rightarrow> s\<lparr> running := Some (k None), queue := queue s @ [c] \<rparr>
      | Some (Return v) \<Rightarrow> s\<lparr> running := None, final := Some (Inr v) \<rparr>
      | Some (Raise e) \<Rightarrow> s\<lparr> running := None, final := Some (Inl e) \<rparr>)"
| "stream_step Consumer s =
     (case queue s of
        [] \<Rightarrow> s
      | c # rest \<Rightarrow> s\<lparr> queue := rest, delivered := delivered s @ [c] \<rparr>)"

fun stream_run :: "party list \<Rightarrow> ('c, 'o) stream_state \<Rightarrow> ('c, 'o) stream_state" where
  "stream_run [] s = s"
| "stream_run (p # ps) s = stream_run ps (stream_step p s)"

text \<open>
  What a handler's run does when every call of the sink succeeds: the chunks it emits, in
  order, and how it ends.
\<close>

primrec emitted :: "('c, 'o) handler_run \<Rightarrow> 'c list" where
  "emitted (Return v) = []"
| "emitted (Raise e) = []"
| "emitted (Emit c k) = c # emitted (k None)"

primrec outcome :: "('c, 'o) handler_run \<Rightarrow> error + 'o" where
  "outcome (Return v) = Inr v"
| "outcome (Raise e) = Inl e"
| "outcome (Emit c k) = outcome (k None)"

subsection \<open>Notions used by the statements about streams\<close>

text \<open>
  The consumer has drained the stream: the handler has run to its end and the consumer
  has taken every chunk. From any state this is reached when the handler takes
  \<open>n + 1\<close> steps and the consumer \<open>n\<close> steps, \<open>n\<close> being the number of chunks of the run.
\<close>

definition drain :: "nat \<Rightarrow> ('c, 'o) stream_state \<Rightarrow> ('c, 'o) stream_state" where
  "drain n s = stream_run (replicate (Suc n) Handler @ replicate n Consumer) s"

text \<open>
  The invariant of a stream whose handler emits the chunks \<open>cs\<close> and ends with \<open>r\<close>: while
  the handler runs the final promise is pending, and the chunks observed, the chunks
  queued and the chunks still to be emitted make up \<open>cs\<close>; once it has ended the promise is
  settled with \<open>r\<close> and the chunks observed and queued make up \<open>cs\<close>.
\<close>

definition stream_inv :: "'c list \<Rightarrow> error + 'o \<Rightarrow> ('c, 'o) stream_state \<Rightarrow> bool" where
  "stream_inv cs r s =
     (case running s of
        Some q \<Rightarrow> final s = None \<and> delivered s @ queue s @ emitted q = cs \<and> outcome q = r
      | None \<Rightarrow> final s = Some r \<and> delivered s @ queue s = cs)"

section \<open>The handler of \<open>SIGTERM\<close> (\<open>js/core/src/genkit.ts\<close>)\<close>

text \<open>
  A promise resolves, rejects with an error, or stays pending for ever. The handler
  starts two tasks, \<open>ReflectionServer.stopAll()\<close> and \<open>cleanUpTracing()\<close>; how the promise
  of each settles is not decided by \<open>genkit.ts\<close> and is a parameter of the model.
\<close>

datatype settlement = Resolves | Rejects error | NeverSettles

datatype task = StopAll | CleanUpTracing

text \<open>
  What the handler does, in order of time: a line of the debug log, the call of a task,
  the promise of a task resolving or rejecting, and \<open>process.exit\<close> with its code. The
  trace ends where the handler ends.
\<close>

datatype event = Debug string | Called task | Settled task | Failed task error | Exit int

text \<open>
  Modelled from the spec: \<open>ReflectionServer.stopAll\<close> of \<open>reflection.js\<close>, which stops all
  Reflection surfaces of the process. When its promise resolves no Reflection server is
  left; when it rejects or stays pending, the servers in \<open>stays\<close> are left.
\<close>

definition ReflectionServer_stopAll ::
    "settlement \<Rightarrow> ReflectionServer set \<Rightarrow> process \<Rightarrow> settlement \<times> process" where
  "ReflectionServer_stopAll how stays w =
     (how, w\<lparr> reflectionServers :=
                 (case how of
                    Resolves \<Rightarrow> []
                  | Rejects e \<Rightarrow> filter (\<lambda>s. s \<in> stays) (reflectionServers w)
                  | NeverSettles \<Rightarrow> filter (\<lambda>s. s \<in> stays) (reflectionServers w)) \<rparr>)"

text \<open>
  Modelled from the spec: \<open>cleanUpTracing\<close> of \<open>tracing.js\<close>, which flushes and closes the
  telemetry exporters. The exporters are not part of the process modelled here.
\<close>

definition cleanUpTracing :: "settlement \<Rightarrow> process \<Rightarrow> settlement \<times> process" where
  "cleanUpTracing how w = (how, w)"

text \<open>
  \<open>await Promise.all(...)\<close>, for the promises listed in the order in which they settle
  (where a pending one stands in the list does not matter). \<open>Promise.all\<close> resolves once
  all have resolved, rejects as soon as one rejects, with the error of that one and
  without waiting for the others, and stays pending otherwise. The result is the events
  up to there and how \<open>Promise.all\<close> settles.
\<close>

fun await_all :: "(task \<times> settlement) list \<Rightarrow> event list \<times> settlement" where
  "await_all [] = ([], Resolves)"
| "await_all ((t, Resolves) # rest) =
     (let (evs, r) = await_all rest in (Settled t # evs, r))"
| "await_all ((t, Rejects e) # rest) = ([Failed t e], Rejects e)"
| "await_all ((t, NeverSettles) # rest) =
     (let (evs, r) = await_all rest
      in (evs, case r of Resolves \<Rightarrow> NeverSettles | Rejects e \<Rightarrow> Rejects e
                       | NeverSettles \<Rightarrow> NeverSettles))"

text \<open>
  The handler that the module registers with \<open>process.on('SIGTERM', ...)\<close>. Both tasks
  are called, \<open>stopAll\<close> first, before either is awaited; \<open>first\<close> is the task whose promise
  settles first when both settle. \<open>process.exit(0)\<close> comes after the \<open>await\<close>, so it is
  reached only if \<open>Promise.all\<close> resolves: a rejection is not caught and ends the handler,
  and there is no timeout. The handler belongs to the module, not to an instance, and
  makes no call on a flow server (\<open>// TODO: Stop flow server.\<close>).
\<close>

definition sigterm_handler ::
    "settlement \<Rightarrow> ReflectionServer set \<Rightarrow> settlement \<Rightarrow> task \<Rightarrow> process \<Rightarrow> event list \<times> process" where
  "sigterm_handler stopAll stays cleanUp first w =
     (let log = [Debug ''Received SIGTERM. Shutting down all reflection servers and cleaning up tracing...''];
          (p1, w1) = ReflectionServer_stopAll stopAll stays w;
          (p2, w2) = cleanUpTracing cleanUp w1;
          calls = [Called StopAll, Called CleanUpTracing];
          (evs, r) = await_all (if first = StopAll then [(StopAll, p1), (CleanUpTracing, p2)]
                                else [(CleanUpTracing, p2), (StopAll, p1)])
      in case r of
           Resolves \<Rightarrow> (log @ calls @ evs @ [Exit 0], w2)
         | Rejects e \<Rightarrow> (log @ calls @ evs, w2)
         | NeverSettles \<Rightarrow> (log @ calls @ evs, w2))"

subsection \<open>A host to send the signal to\<close>

text \<open>
  A host in the \<open>dev\<close> environment that has constructed one instance with the flow server
  enabled: it has one Reflection server and one flow server, on the port 3400.
\<close>

definition serving_options :: GenkitOptions where
  "serving_options =
     no_options\<lparr> flowServerOptions :=
                   Some \<lparr> enabled = True, flows = None, port = None, pathPrefix = None \<rparr> \<rparr>"

definition serving_host :: process where
  "serving_host = snd (new_Genkit (Some serving_options) (initial_process [''GENKIT_ENV'' \<mapsto> ''dev'']))"

section \<open>Properties of the class \<open>Genkit\<close>\<close>

subsection \<open>Frame lemmas\<close>

lemma registerPlugin_frame:
  "registerPlugin r nm p w = (res, w') \<Longrightarrow>
     env w' = env w \<and> nextRef w' = nextRef w \<and> currentRegistry w' = currentRegistry w \<and>
     initLog w' = initLog w \<and> httpServers w' = httpServers w \<and>
     reflectionServers w' = reflectionServers w"
  by (auto simp: registerPlugin_def put_Registry_def Let_def split: if_splits)

lemma register_plugins_frame:
  "register_plugins ps w = (res, w') \<Longrightarrow>
     env w' = env w \<and> nextRef w' = nextRef w \<and> currentRegistry w' = currentRegistry w \<and>
     initLog w' = initLog w \<and> httpServers w' = httpServers w \<and>
     reflectionServers w' = reflectionServers w"
proof (induction ps arbitrary: w)
  case Nil
  then show ?case by simp
next
  case (Cons p ps)
  obtain r1 w1 where step: "registerPluginProvider (plugin_name p)
       \<lparr> plugin_name = plugin_name p, initializer = initializer p \<rparr> w = (r1, w1)"
    by (cases "registerPluginProvider (plugin_name p)
       \<lparr> plugin_name = plugin_name p, initializer = initializer p \<rparr> w") 
  then have fr: "env w1 = env w \<and> nextRef w1 = nextRef w \<and> currentRegistry w1 = currentRegistry w \<and>
     initLog w1 = initLog w \<and> httpServers w1 = httpServers w \<and>
     reflectionServers w1 = reflectionServers w"
    unfolding registerPluginProvider_def by (rule registerPlugin_frame)
  show ?case
  proof (cases r1)
    case (Inl e)
    with Cons.prems step fr show ?thesis by simp
  next
    case (Inr u)
    with Cons.prems step have "register_plugins ps w1 = (res, w')" by simp
    from Cons.IH[OF this] fr show ?thesis by simp
  qed
qed

lemma configure_frame:
  "configure g w = (res, w') \<Longrightarrow>
     env w' = env w \<and> nextRef w' = nextRef w \<and> currentRegistry w' = currentRegistry w \<and>
     initLog w' = initLog w \<and> httpServers w' = httpServers w \<and>
     reflectionServers w' = reflectionServers w"
proof -
  assume A: "configure g w = (res, w')"
  obtain r1 w1 where R: "register_plugins (case plugins (options g) of None \<Rightarrow> [] | Some ps \<Rightarrow> ps) w = (r1, w1)"
    by (cases "register_plugins (case plugins (options g) of None \<Rightarrow> [] | Some ps \<Rightarrow> ps) w")
  with A have "w' = w1"
    by (cases r1) (simp_all add: configure_def Let_def)
  with register_plugins_frame[OF R] show ?thesis by simp
qed

lemma configure_genkit:
  "configure g w = (Inr g', w') \<Longrightarrow>
     registry g' = registry g \<and> reflectionServer g' = reflectionServer g \<and>
     flowServer g' = flowServer g \<and> registeredFlows g' = registeredFlows g \<and> options g' = options g"
  unfolding configure_def
  by (auto simp: Let_def split: prod.splits sum.splits option.splits if_splits)

lemma startFlowServer_frame:
  "startFlowServer g w = (res, w') \<Longrightarrow>
     env w' = env w \<and> nextRef w' = nextRef w \<and> currentRegistry w' = currentRegistry w \<and>
     initLog w' = initLog w \<and> registries w' = registries w \<and>
     reflectionServers w' = reflectionServers w \<and>
     (\<forall>g'. res = Inr g' \<longrightarrow> registry g' = registry g \<and> reflectionServer g' = reflectionServer g)"
  unfolding startFlowServer_def
  by (auto simp: Let_def split: option.splits if_splits)

lemma isDevEnv_iff: "isDevEnv w \<longleftrightarrow> env w ''GENKIT_ENV'' = Some ''dev''"
  by (auto simp: isDevEnv_def getCurrentEnv_def truthy_str_def split: option.splits)

subsection \<open>The flow server\<close>

text \<open>
  C9: for a Genkit instance whose options do not set \<open>flowServer.enabled\<close> to true,
  \<open>startFlowServer\<close> returns without creating an HTTP server. The instance and the process
  are unchanged: the field \<open>flowServer\<close> stays null and the list of listening servers is
  the same, whatever flows the instance has registered.
\<close>

theorem startFlowServer_not_enabled:
  assumes "\<not> flowServer_enabled (options g)" and "flowServer g = None"
  shows "startFlowServer g w = (Inr g, w) \<and>
         (case fst (startFlowServer g w) of Inr g' \<Rightarrow> flowServer g' = None | Inl e \<Rightarrow> False) \<and>
         httpServers (snd (startFlowServer g w)) = httpServers w"
proof -
  have "startFlowServer g w = (Inr g, w)"
    using assms(1)
    by (cases "flowServerOptions (options g)")
       (simp_all add: flowServer_enabled_def startFlowServer_def)
  with assms(2) show ?thesis by simp
qed

theorem startFlowServer_not_enabled_witness:
  "\<not> flowServer_enabled (options (genkit_with (Some \<lparr> enabled = False, flows = None, port = Some (Num 8080), pathPrefix = None \<rparr>))) \<and>
   length (registeredFlows (genkit_with (Some \<lparr> enabled = False, flows = None, port = Some (Num 8080), pathPrefix = None \<rparr>))) = 2 \<and>
   (case fst (startFlowServer (genkit_with (Some \<lparr> enabled = False, flows = None, port = Some (Num 8080), pathPrefix = None \<rparr>))
       (initial_process [''PORT'' \<mapsto> ''9000''])) of Inr g' \<Rightarrow> flowServer g' = None | Inl e \<Rightarrow> False) \<and>
   httpServers (snd (startFlowServer (genkit_with (Some \<lparr> enabled = False, flows = None, port = Some (Num 8080), pathPrefix = None \<rparr>))
       (initial_process [''PORT'' \<mapsto> ''9000'']))) = []"
  using startFlowServer_not_enabled
    [of "genkit_with (Some \<lparr> enabled = False, flows = None, port = Some (Num 8080), pathPrefix = None \<rparr>)"
        "initial_process [''PORT'' \<mapsto> ''9000'']"]
  by (simp add: genkit_with_def flowServer_enabled_def no_options_def initial_process_def)

lemma flow_routes_handler:
  "filter is_flow_handler (flow_routes r pre f) = [(''/'' @ pre @ name f, ExpressHandler (name f) r)]"
  by (cases "middleware f") (simp_all add: flow_routes_def Let_def filter_map o_def)

lemma flow_routes_paths:
  "fst ` set (flow_routes r pre f) = {''/'' @ pre @ name f}"
  by (cases "middleware f") (auto simp: flow_routes_def Let_def)

lemma routes_handlers:
  "filter is_flow_handler (concat (map (flow_routes r pre) fl)) =
     map (\<lambda>f. (''/'' @ pre @ name f, ExpressHandler (name f) r)) fl"
  by (induction fl) (simp_all add: flow_routes_handler)

lemma routes_paths:
  "fst ` set (concat (map (flow_routes r pre) fl)) = (\<lambda>f. ''/'' @ pre @ name f) ` set fl"
proof (induction fl)
  case Nil
  then show ?case by simp
next
  case (Cons f fl)
  have "fst ` set (concat (map (flow_routes r pre) (f # fl))) =
          fst ` set (flow_routes r pre f) \<union> fst ` set (concat (map (flow_routes r pre) fl))"
    by (simp add: image_Un)
  with Cons show ?case by (simp add: flow_routes_paths)
qed

lemma js_or_port:
  "js_or (Some (js_or p (case e of Some s \<Rightarrow> if truthy_str s then parseInt s else Num 0 | None \<Rightarrow> Num 0))) (Num 3400)
     = first_truthy_port p e"
  by (auto simp: js_or_def first_truthy_port_def env_port_or_default_def truthy_str_def
           split: option.splits)

text \<open>
  \<open>parseInt\<close> on some strings: digits; a no-break space (U+00A0) before the digits; a
  sign and a hexadecimal prefix; no digit; and a value that no double holds exactly.
\<close>

lemmas eval_parseInt =
  parseInt_def strip_sign_def strip_prefix_def parse_digits_def is_digit_def
  digit_val_def digits_value_def skip_white_space.simps Let_def

lemma parseInt_8080: "parseInt ''8080'' = Num 8080"
  by (simp add: eval_parseInt)

lemma parseInt_70000: "parseInt ''70000'' = Num 70000"
  by (simp add: eval_parseInt)

lemma parseInt_examples:
  "parseInt ([char_of (194 :: nat), char_of (160 :: nat)] @ ''8080'') = Num 8080"
  "parseInt '' -0x1f'' = Num (- 31)"
  "parseInt ''port'' = NaN"
  "parseInt ''9007199254740993'' = Other"
  by (simp_all add: eval_parseInt)

text \<open>
  C10, as stated, fails, in two ways. With \<open>options.flowServer.port = 0\<close> and \<open>PORT=8080\<close>
  the first defined value is the port 0, and the server listens on 8080, because \<open>||\<close>
  passes over a falsy operand. With no port in the options and \<open>PORT=70000\<close> the value
  chosen is 70000, and no server listens on it: \<open>listen\<close> throws.
\<close>

theorem first_defined_port_counterexample:
  "first_defined_port (Some (Num 0)) (Some ''8080'') = Num 0 \<and>
   (case fst (startFlowServer
        (genkit_with (Some \<lparr> enabled = True, flows = None, port = Some (Num 0), pathPrefix = None \<rparr>))
        (initial_process [''PORT'' \<mapsto> ''8080''])) of
      Inr g' \<Rightarrow> map_option listen_port (flowServer g')
    | Inl e \<Rightarrow> None) = Some (Num 8080) \<and>
   first_defined_port None (Some ''70000'') = Num 70000 \<and>
   startFlowServer
        (genkit_with (Some \<lparr> enabled = True, flows = None, port = None, pathPrefix = None \<rparr>))
        (initial_process [''PORT'' \<mapsto> ''70000'']) =
     (Inl RangeError, initial_process [''PORT'' \<mapsto> ''70000''])"
  by (simp add: first_defined_port_def startFlowServer_def genkit_with_def no_options_def
        initial_process_def js_or_def truthy_str_def parseInt_8080 parseInt_70000 Let_def)

text \<open>
  C10, amended: when the flow server is enabled, the port is the first truthy value among
  \<open>options.flowServer.port\<close>, the \<open>parseInt\<close> of a non-empty \<open>PORT\<close>, and 3400. If that
  port is an integer from 0 to 65535, the server listens on it and is recorded as
  listening, and each exposed flow has its handler mounted, in order, at \<open>/\<close> followed by
  the \<open>pathPrefix\<close> (empty by default) followed by the flow's name, the middleware of the
  flow being mounted at the same path. If it is not, \<open>listen\<close> throws, no server is
  created and the field \<open>flowServer\<close> is not set.
\<close>

theorem startFlowServer_port_and_paths:
  assumes "flowServerOptions (options g) = Some fs" and "enabled fs"
  shows "(legal_port (first_truthy_port (port fs) (env w ''PORT'')) \<longrightarrow>
            (\<exists>srv. startFlowServer g w =
                      (Inr (g\<lparr> flowServer := Some srv \<rparr>),
                       w\<lparr> httpServers := httpServers w @ [srv] \<rparr>) \<and>
                    listen_port srv = first_truthy_port (port fs) (env w ''PORT'') \<and>
                    filter is_flow_handler (routes srv) =
                      map (\<lambda>f. (''/'' @ path_prefix fs @ name f, ExpressHandler (name f) (registry g)))
                          (exposed_flows g fs) \<and>
                    fst ` set (routes srv) =
                      (\<lambda>f. ''/'' @ path_prefix fs @ name f) ` set (exposed_flows g fs))) \<and>
         (\<not> legal_port (first_truthy_port (port fs) (env w ''PORT'')) \<longrightarrow>
            startFlowServer g w = (Inl RangeError, w))"
proof -
  define srv where "srv = \<lparr> listen_port = first_truthy_port (port fs) (env w ''PORT''),
      routes = concat (map (flow_routes (registry g) (path_prefix fs)) (exposed_flows g fs)) \<rparr>"
  have run: "startFlowServer g w =
          (if legal_port (first_truthy_port (port fs) (env w ''PORT''))
           then (Inr (g\<lparr> flowServer := Some srv \<rparr>), w\<lparr> httpServers := httpServers w @ [srv] \<rparr>)
           else (Inl RangeError, w))"
    using assms
    by (simp add: startFlowServer_def Let_def js_or_port srv_def path_prefix_def exposed_flows_def)
  have p: "listen_port srv = first_truthy_port (port fs) (env w ''PORT'')"
    by (simp add: srv_def)
  have h: "filter is_flow_handler (routes srv) =
                 map (\<lambda>f. (''/'' @ path_prefix fs @ name f, ExpressHandler (name f) (registry g)))
                     (exposed_flows g fs)"
    by (simp add: srv_def routes_handlers)
  have r: "fst ` set (routes srv) = (\<lambda>f. ''/'' @ path_prefix fs @ name f) ` set (exposed_flows g fs)"
    using routes_paths[of "registry g" "path_prefix fs" "exposed_flows g fs"] by (simp add: srv_def)
  show ?thesis
  proof (cases "legal_port (first_truthy_port (port fs) (env w ''PORT''))")
    case True
    with run p h r show ?thesis by auto
  next
    case False
    with run show ?thesis by simp
  qed
qed

theorem startFlowServer_port_and_paths_witness:
  "(\<exists>g' srv. fst (startFlowServer
        (genkit_with (Some \<lparr> enabled = True, flows = None, port = Some (Num 0), pathPrefix = Some ''api/'' \<rparr>))
        (initial_process [''PORT'' \<mapsto> ''8080''])) = Inr g' \<and>
      flowServer g' = Some srv \<and>
      listen_port srv = Num 8080 \<and>
      filter is_flow_handler (routes srv) =
        [(''/api/hello'', ExpressHandler ''hello'' 1), (''/api/bye'', ExpressHandler ''bye'' 1)]) \<and>
   startFlowServer
        (genkit_with (Some \<lparr> enabled = True, flows = None, port = None, pathPrefix = None \<rparr>))
        (initial_process [''PORT'' \<mapsto> ''70000'']) =
     (Inl RangeError, initial_process [''PORT'' \<mapsto> ''70000''])"
proof -
  let ?fs = "\<lparr> enabled = True, flows = None, port = Some (Num 0), pathPrefix = Some ''api/'' \<rparr>"
  let ?g = "genkit_with (Some ?fs)"
  let ?w = "initial_process [''PORT'' \<mapsto> ''8080'']"
  have h1: "flowServerOptions (options ?g) = Some ?fs"
    by (simp add: genkit_with_def)
  have h2: "enabled ?fs" by simp
  have l: "legal_port (first_truthy_port (port ?fs) (env ?w ''PORT''))"
    by (simp add: first_truthy_port_def env_port_or_default_def parseInt_8080 initial_process_def)
  from startFlowServer_port_and_paths[OF h1 h2, of ?w] l obtain srv where
    s: "startFlowServer ?g ?w =
          (Inr (?g\<lparr> flowServer := Some srv \<rparr>), ?w\<lparr> httpServers := httpServers ?w @ [srv] \<rparr>)"
    and p: "listen_port srv = first_truthy_port (port ?fs) (env ?w ''PORT'')"
    and r: "filter is_flow_handler (routes srv) =
              map (\<lambda>f. (''/'' @ path_prefix ?fs @ name f, ExpressHandler (name f) (registry ?g)))
                  (exposed_flows ?g ?fs)"
    by blast
  have a: "fst (startFlowServer ?g ?w) = Inr (?g\<lparr> flowServer := Some srv \<rparr>)"
    by (simp add: s)
  have b: "flowServer (?g\<lparr> flowServer := Some srv \<rparr>) = Some srv" by simp
  have c: "listen_port srv = Num 8080"
    by (simp add: p first_truthy_port_def env_port_or_default_def parseInt_8080 initial_process_def)
  have d: "filter is_flow_handler (routes srv) =
        [(''/api/hello'', ExpressHandler ''hello'' 1), (''/api/bye'', ExpressHandler ''bye'' 1)]"
    by (simp add: r path_prefix_def exposed_flows_def genkit_with_def hello_flow_def bye_flow_def)
  let ?fs2 = "\<lparr> enabled = True, flows = None, port = None, pathPrefix = None \<rparr>"
  let ?g2 = "genkit_with (Some ?fs2)"
  let ?w2 = "initial_process [''PORT'' \<mapsto> ''70000'']"
  have k1: "flowServerOptions (options ?g2) = Some ?fs2"
    by (simp add: genkit_with_def)
  have k2: "enabled ?fs2" by simp
  have k3: "\<not> legal_port (first_truthy_port (port ?fs2) (env ?w2 ''PORT''))"
    by (simp add: first_truthy_port_def env_port_or_default_def parseInt_70000 initial_process_def)
  from startFlowServer_port_and_paths[OF k1 k2, of ?w2] k3
  have e: "startFlowServer ?g2 ?w2 = (Inl RangeError, ?w2)" by blast
  from a b c d e show ?thesis by blast
qed

section \<open>Plugin memoization\<close>

lemma memo_step_refl: "memo_step r nm w w"
  by (simp add: memo_step_def)

lemma memo_step_trans: "memo_step r nm w w1 \<Longrightarrow> memo_step r nm w1 w2 \<Longrightarrow> memo_step r nm w w2"
  by (auto simp: memo_step_def)

lemma memo_step_new_Registry: "memo_step r nm w (snd (new_Registry w))"
  by (simp add: memo_step_def new_Registry_def cached_def provider_of_def owed_def runs_def)

lemma memo_step_registerAction: "memo_step r nm w (snd (registerAction r' a w))"
  by (simp add: memo_step_def registerAction_def put_Registry_def Let_def cached_def
        provider_of_def owed_def runs_def)

lemma memo_step_registerPlugin: "memo_step r nm w (snd (registerPlugin r' nm' p w))"
  by (auto simp: memo_step_def registerPlugin_def put_Registry_def Let_def cached_def
        provider_of_def owed_def runs_def)

lemma memo_step_resolvePlugin: "memo_step r nm w (snd (resolvePlugin r' nm' w))"
  by (auto simp: memo_step_def resolvePlugin_def put_Registry_def Let_def cached_def
        provider_of_def owed_def runs_def split: option.splits sum.splits)


lemma memo_step_view:
  "registries w' = registries w \<Longrightarrow> nextRef w' = nextRef w \<Longrightarrow> initLog w' = initLog w \<Longrightarrow>
     memo_step r nm w w'"
  by (simp add: memo_step_def cached_def provider_of_def owed_def runs_def)

lemma memo_step_cong_left:
  "registries v = registries w \<Longrightarrow> nextRef v = nextRef w \<Longrightarrow> initLog v = initLog w \<Longrightarrow>
     memo_step r nm v w' \<Longrightarrow> memo_step r nm w w'"
  by (simp add: memo_step_def cached_def provider_of_def owed_def runs_def)

lemma memo_step_register_plugins: "memo_step r nm w (snd (register_plugins ps w))"
proof (induction ps arbitrary: w)
  case Nil
  show ?case by (simp add: memo_step_refl)
next
  case (Cons p ps)
  let ?prov = "\<lparr> plugin_name = plugin_name p, initializer = initializer p \<rparr>"
  obtain r1 w1 where step: "registerPluginProvider (plugin_name p) ?prov w = (r1, w1)"
    by (cases "registerPluginProvider (plugin_name p) ?prov w")
  have s1: "memo_step r nm w w1"
    using memo_step_registerPlugin[of r nm w "currentRegistry w" "plugin_name p" ?prov] step
    by (simp add: registerPluginProvider_def)
  show ?case
  proof (cases r1)
    case (Inl e)
    with step s1 show ?thesis by simp
  next
    case (Inr u)
    with step have "snd (register_plugins (p # ps) w) = snd (register_plugins ps w1)" by simp
    with memo_step_trans[OF s1 Cons.IH[of w1]] show ?thesis by simp
  qed
qed

lemma snd_configure:
  "snd (configure g w) =
     snd (register_plugins (case plugins (options g) of None \<Rightarrow> [] | Some ps \<Rightarrow> ps) w)"
  by (simp add: configure_def Let_def split: prod.splits sum.splits)

lemma memo_step_configure: "memo_step r nm w (snd (configure g w))"
  by (simp add: snd_configure memo_step_register_plugins)

lemma memo_step_startFlowServer: "memo_step r nm w (snd (startFlowServer g w))"
  by (rule memo_step_view)
     (simp_all add: startFlowServer_def Let_def split: option.splits)

lemma memo_step_startReflectionServer: "memo_step r nm w (snd (startReflectionServer g w))"
  by (rule memo_step_view)
     (simp_all add: startReflectionServer_def ReflectionServer_start_def Let_def)

lemma memo_step_new_Genkit: "memo_step r nm w (snd (new_Genkit opts w))"
proof -
  define w1 where "w1 = snd (new_Registry w)"
  define r0 where "r0 = fst (new_Registry w)"
  define g0 where "g0 = \<lparr> options = (case opts of Some x \<Rightarrow> x | None \<Rightarrow> no_options),
                 registry = r0, telemetryConfig = None, loggerConfig = None,
                 reflectionServer = None, flowServer = None, registeredFlows = [] \<rparr>"
  define wa where "wa = w1\<lparr> currentRegistry := r0 \<rparr>"
  obtain res wc where C: "configure g0 wa = (res, wc)"
    by (cases "configure g0 wa")
  define w2 where "w2 = wc\<lparr> currentRegistry := currentRegistry w1 \<rparr>"
  have R: "runWithRegistry r0 (configure g0) w1 = (res, w2)"
    using C by (simp add: runWithRegistry_def w2_def wa_def)
  have NR: "new_Registry w = (r0, w1)" by (simp add: r0_def w1_def)
  have s1: "memo_step r nm w w1" by (simp add: w1_def memo_step_new_Registry)
  have s2: "memo_step r nm w1 wa" by (rule memo_step_view) (simp_all add: wa_def)
  have s3: "memo_step r nm wa wc" using memo_step_configure[of r nm wa g0] C by simp
  have s4: "memo_step r nm wc w2" by (rule memo_step_view) (simp_all add: w2_def)
  have s: "memo_step r nm w w2"
    using s1 s2 s3 s4 by (blast intro: memo_step_trans)
  show ?thesis
  proof (cases res)
    case (Inl e)
    with NR R have "snd (new_Genkit opts w) = w2"
      by (simp add: new_Genkit_def Let_def g0_def)
    with s show ?thesis by simp
  next
    case (Inr g1)
    obtain g2 w3 where S: "(if isDevEnv w2 then startReflectionServer g1 w2 else (g1, w2)) = (g2, w3)"
      by (cases "(if isDevEnv w2 then startReflectionServer g1 w2 else (g1, w2))")
    have s5: "memo_step r nm w2 w3"
      using S memo_step_startReflectionServer[of r nm w2 g1]
      by (cases "isDevEnv w2") (auto simp: memo_step_refl)
    have s6: "memo_step r nm w3 (snd (startFlowServer g2 w3))"
      by (rule memo_step_startFlowServer)
    from Inr NR R S have "snd (new_Genkit opts w) = snd (startFlowServer g2 w3)"
      by (simp add: new_Genkit_def Let_def g0_def split: prod.splits)
    with s s5 s6 show ?thesis by (metis memo_step_trans)
  qed
qed

lemma memo_step_apply_op: "memo_step r nm w (apply_op x w)"
  by (cases x)
     (simp_all add: memo_step_refl memo_step_new_Registry memo_step_new_Genkit
        memo_step_registerAction memo_step_registerPlugin memo_step_resolvePlugin)

lemma memo_step_run_ops: "memo_step r nm w (run_ops xs w)"
proof (induction xs arbitrary: w)
  case Nil
  show ?case by (simp add: memo_step_refl)
next
  case (Cons x xs)
  from memo_step_trans[OF memo_step_apply_op Cons.IH] show ?case by simp
qed


lemma resolvePlugin_memoized:
  "cached r nm w = Some x \<Longrightarrow> resolvePlugin r nm w = (settled x, w)"
  by (cases x) (simp_all add: resolvePlugin_def cached_def settled_def)

lemma resolvePlugin_first:
  assumes "cached r nm w = None" and "provider_of r nm w = Some p"
  shows "fst (resolvePlugin r nm w) = settled (initializer p (length (initLog w))) \<and>
         initLog (snd (resolvePlugin r nm w)) = initLog w @ [(r, nm)] \<and>
         cached r nm (snd (resolvePlugin r nm w)) = Some (initializer p (length (initLog w)))"
  using assms
  by (cases "initializer p (length (initLog w))")
     (simp_all add: resolvePlugin_def cached_def provider_of_def settled_def put_Registry_def Let_def)

lemma resolvePlugin_caches:
  assumes "provider_of r nm w = Some p"
  shows "\<exists>x. cached r nm (snd (resolvePlugin r nm w)) = Some x \<and>
             fst (resolvePlugin r nm w) = settled x"
proof (cases "cached r nm w")
  case None
  from resolvePlugin_first[OF None assms] show ?thesis by blast
next
  case (Some x)
  from resolvePlugin_memoized[OF Some] Some show ?thesis by simp
qed

lemma registerPlugin_ok:
  assumes "registerPlugin r nm provider w = (Inr (), w0)"
  shows "initLog w0 = initLog w \<and> nextRef w0 = nextRef w \<and>
         provider_of r nm w0 = Some provider \<and> owed r nm w0 = owed r nm w"
  using assms
  by (auto simp: registerPlugin_def put_Registry_def Let_def provider_of_def owed_def runs_def
        cached_def split: if_splits)

lemma snd_resolveTelemetryConfig:
  "snd (resolveTelemetryConfig nm w) = snd (resolvePlugin (currentRegistry w) nm w)"
  by (simp add: resolveTelemetryConfig_def initializePlugin_def case_prod_beta
        split: sum.splits option.splits)

lemma resolveTelemetryConfig_memoized:
  assumes "cached (currentRegistry w) nm w = Some x"
  shows "resolveTelemetryConfig nm w =
           ((case x of
               Inl e \<Rightarrow> Inl e
             | Inr pv \<Rightarrow>
                 (case telemetry_instrumentation pv of
                    None \<Rightarrow> Inl (Error (''Unable to resolve provider `telemetry.instrumentation` for plugin: '' @ nm))
                  | Some v \<Rightarrow> Inr (PluginTelemetryConfig v))), w)"
  using resolvePlugin_memoized[OF assms]
  by (cases x) (simp_all add: resolveTelemetryConfig_def initializePlugin_def settled_def split: option.splits)

lemma resolveTelemetryConfig_twice:
  assumes "provider_of (currentRegistry w) nm w = Some p"
  shows "resolveTelemetryConfig nm (snd (resolveTelemetryConfig nm w)) =
           (fst (resolveTelemetryConfig nm w), snd (resolveTelemetryConfig nm w))"
proof -
  let ?r = "currentRegistry w"
  let ?w1 = "snd (resolvePlugin ?r nm w)"
  from resolvePlugin_caches[OF assms] obtain x where
    x: "cached ?r nm ?w1 = Some x" "fst (resolvePlugin ?r nm w) = settled x" by blast
  have cur: "currentRegistry ?w1 = ?r"
    by (simp add: resolvePlugin_def put_Registry_def Let_def split: option.splits sum.splits)
  have s: "snd (resolveTelemetryConfig nm w) = ?w1"
    by (rule snd_resolveTelemetryConfig)
  have f: "fst (resolveTelemetryConfig nm w) =
      (case x of
               Inl e \<Rightarrow> Inl e
             | Inr pv \<Rightarrow>
                 (case telemetry_instrumentation pv of
                    None \<Rightarrow> Inl (Error (''Unable to resolve provider `telemetry.instrumentation` for plugin: '' @ nm))
                  | Some v \<Rightarrow> Inr (PluginTelemetryConfig v)))"
    using x(2)
    by (cases x) (simp_all add: resolveTelemetryConfig_def initializePlugin_def settled_def
                   case_prod_beta split: option.splits)
  from x(1) cur have "cached (currentRegistry ?w1) nm ?w1 = Some x" by simp
  from resolveTelemetryConfig_memoized[OF this] s f show ?thesis by simp
qed

text \<open>
  C3: once a plugin name is registered on a Registry (the registration does not run the
  initializer, and neither does \<open>configure\<close>, which registers the plugins of the
  options), then in every run of the host: a resolution of the name that finds
  nothing memoized runs the initializer, once, and hands on what it settled with; every
  later resolution, whatever the host did in between, returns the same result, value or
  failure, and leaves the process as it is, so the initializer is not run again; and the
  initializer has run at most once more for this Registry than before the registration.
\<close>

theorem plugin_initializer_runs_once:
  assumes "r < nextRef w" and "registerPlugin r nm provider w = (Inr (), w0)"
  shows "initLog w0 = initLog w \<and>
         (\<forall>g v. initLog (snd (configure g v)) = initLog v) \<and>
         (\<forall>ops ops'.
            let w1 = run_ops ops w0;
                (res, w2) = resolvePlugin r nm w1;
                w3 = run_ops ops' w2
            in (cached r nm w1 = None \<longrightarrow>
                  res = settled (initializer provider (length (initLog w1))) \<and>
                  initLog w2 = initLog w1 @ [(r, nm)]) \<and>
               resolvePlugin r nm w3 = (res, w3) \<and>
               count_list (initLog w3) (r, nm) \<le> count_list (initLog w) (r, nm) + 1)"
proof -
  from registerPlugin_ok[OF assms(2)]
  have reg: "initLog w0 = initLog w" "nextRef w0 = nextRef w"
    "provider_of r nm w0 = Some provider" "owed r nm w0 = owed r nm w"
    by simp_all
  have r0: "r < nextRef w0" using assms(1) reg by simp
  have "(cached r nm (run_ops ops w0) = None \<longrightarrow>
           fst (resolvePlugin r nm (run_ops ops w0)) =
             settled (initializer provider (length (initLog (run_ops ops w0)))) \<and>
           initLog (snd (resolvePlugin r nm (run_ops ops w0))) =
             initLog (run_ops ops w0) @ [(r, nm)]) \<and>
        resolvePlugin r nm (run_ops ops' (snd (resolvePlugin r nm (run_ops ops w0)))) =
          (fst (resolvePlugin r nm (run_ops ops w0)),
           run_ops ops' (snd (resolvePlugin r nm (run_ops ops w0)))) \<and>
        count_list (initLog (run_ops ops' (snd (resolvePlugin r nm (run_ops ops w0))))) (r, nm)
          \<le> count_list (initLog w) (r, nm) + 1" for ops ops'
  proof -
    define w1 where "w1 = run_ops ops w0"
    define w2 where "w2 = snd (resolvePlugin r nm w1)"
    define w3 where "w3 = run_ops ops' w2"
    have s1: "memo_step r nm w0 w1" by (simp add: w1_def memo_step_run_ops)
    have s2: "memo_step r nm w1 w2" by (simp add: w2_def memo_step_resolvePlugin)
    have s3: "memo_step r nm w2 w3" by (simp add: w3_def memo_step_run_ops)
    from s1 r0 reg have p1: "r < nextRef w1" "provider_of r nm w1 = Some provider"
      "owed r nm w1 \<le> owed r nm w0"
      by (simp_all add: memo_step_def)
    from s2 p1 have p2: "r < nextRef w2" "owed r nm w2 \<le> owed r nm w1"
      by (simp_all add: memo_step_def)
    from resolvePlugin_caches[OF p1(2)] obtain x where
      x: "cached r nm w2 = Some x" "fst (resolvePlugin r nm w1) = settled x"
      by (auto simp: w2_def)
    from s3 p2 x have p3: "cached r nm w3 = Some x" "owed r nm w3 \<le> owed r nm w2"
      by (simp_all add: memo_step_def)
    have a: "cached r nm w1 = None \<longrightarrow>
           fst (resolvePlugin r nm w1) = settled (initializer provider (length (initLog w1))) \<and>
           initLog w2 = initLog w1 @ [(r, nm)]"
      using resolvePlugin_first[of r nm w1 provider] p1(2) by (simp add: w2_def)
    have b: "resolvePlugin r nm w3 = (fst (resolvePlugin r nm w1), w3)"
      using resolvePlugin_memoized[OF p3(1)] x(2) by simp
    have "runs r nm w3 \<le> owed r nm w3" by (simp add: owed_def)
    also have "\<dots> \<le> owed r nm w" using p3(2) p2(2) p1(3) reg(4) by simp
    also have "\<dots> \<le> runs r nm w + 1" by (simp add: owed_def)
    finally have c: "count_list (initLog w3) (r, nm) \<le> count_list (initLog w) (r, nm) + 1"
      by (simp add: runs_def)
    from a b c show ?thesis by (simp add: w1_def w2_def w3_def)
  qed
  moreover have "initLog (snd (configure g v)) = initLog v" for g v
    using configure_frame[of g v "fst (configure g v)" "snd (configure g v)"] by simp
  ultimately show ?thesis using reg(1) by (simp add: Let_def case_prod_beta)
qed


theorem plugin_initializer_runs_once_witness:
  "fst (registerPlugin 0 ''creds'' flaky_plugin (initial_process Map.empty)) = Inr () \<and>
   (let w0 = snd (registerPlugin 0 ''creds'' flaky_plugin (initial_process Map.empty));
        (res, w2) = resolvePlugin 0 ''creds'' w0;
        w3 = run_ops [NewRegistry, ResolvePlugin 0 ''creds''] w2
    in initLog w0 = [] \<and>
       res = Inl (Error ''no credentials'') \<and>
       resolvePlugin 0 ''creds'' w3 = (Inl (Error ''no credentials''), w3) \<and>
       count_list (initLog w3) (0, ''creds'') \<le> 1)"
proof -
  let ?w = "initial_process Map.empty"
  let ?reg = "snd (registerPlugin 0 ''creds'' flaky_plugin ?w)"
  have h1: "0 < nextRef ?w" by (simp add: initial_process_def)
  have h3: "fst (registerPlugin 0 ''creds'' flaky_plugin ?w) = Inr ()"
    by (simp add: registerPlugin_def initial_process_def empty_Registry_def Let_def)
  have h2: "registerPlugin 0 ''creds'' flaky_plugin ?w = (Inr (), ?reg)"
    using h3 by (metis prod.collapse)
  have c: "cached 0 ''creds'' ?reg = None"
    by (simp add: cached_def registerPlugin_def initial_process_def empty_Registry_def
          put_Registry_def Let_def)
  have l: "initLog ?w = []" by (simp add: initial_process_def)
  have i: "settled (initializer flaky_plugin 0) = Inl (Error ''no credentials'')"
    by (simp add: settled_def flaky_plugin_def)
  from plugin_initializer_runs_once[OF h1 h2] have l0: "initLog ?reg = []" and
    T: "\<And>ops ops'. let w1 = run_ops ops ?reg;
                (res, w2) = resolvePlugin 0 ''creds'' w1;
                w3 = run_ops ops' w2
            in (cached 0 ''creds'' w1 = None \<longrightarrow>
                  res = settled (initializer flaky_plugin (length (initLog w1))) \<and>
                  initLog w2 = initLog w1 @ [(0, ''creds'')]) \<and>
               resolvePlugin 0 ''creds'' w3 = (res, w3) \<and>
               count_list (initLog w3) (0, ''creds'') \<le> count_list (initLog ?w) (0, ''creds'') + 1"
    by (simp_all add: l)
  define w2 where "w2 = snd (resolvePlugin 0 ''creds'' ?reg)"
  define w3 where "w3 = run_ops [NewRegistry, ResolvePlugin 0 ''creds''] w2"
  from T[of "[]" "[NewRegistry, ResolvePlugin 0 ''creds'']"]
  have a: "fst (resolvePlugin 0 ''creds'' ?reg) = Inl (Error ''no credentials'')"
    and b: "resolvePlugin 0 ''creds'' w3 = (fst (resolvePlugin 0 ''creds'' ?reg), w3)"
    and d: "count_list (initLog w3) (0, ''creds'') \<le> 1"
    using c l0 i l unfolding w2_def w3_def
    by (simp_all add: Let_def case_prod_beta del: run_ops.simps(2))
  from a b d l0 h3 show ?thesis
    unfolding w2_def w3_def
    by (simp add: Let_def case_prod_beta del: run_ops.simps apply_op.simps)
qed

section \<open>Isolation of the Registries of two instances\<close>

lemma registerPlugin_others:
  "r' \<noteq> r \<Longrightarrow> registries (snd (registerPlugin r nm p w)) r' = registries w r'"
  by (simp add: registerPlugin_def put_Registry_def Let_def)

lemma registerAction_others:
  "r' \<noteq> r \<Longrightarrow> registries (snd (registerAction r a w)) r' = registries w r'"
  by (simp add: registerAction_def put_Registry_def Let_def)

lemma resolvePlugin_others:
  "r' \<noteq> r \<Longrightarrow> registries (snd (resolvePlugin r nm w)) r' = registries w r'"
  by (simp add: resolvePlugin_def put_Registry_def Let_def split: option.splits sum.splits)

lemma registerAction_outcome:
  "fst (registerAction r a w) =
     (if (action_kind a, action_name a) \<in> dom (actions (registries w r))
      then Inl DuplicateNameError else Inr ())"
  by (simp add: registerAction_def Let_def)

lemma register_plugins_others:
  "r' \<noteq> currentRegistry w \<Longrightarrow> registries (snd (register_plugins ps w)) r' = registries w r'"
proof (induction ps arbitrary: w)
  case Nil
  show ?case by simp
next
  case (Cons p ps)
  let ?prov = "\<lparr> plugin_name = plugin_name p, initializer = initializer p \<rparr>"
  obtain r1 w1 where step: "registerPluginProvider (plugin_name p) ?prov w = (r1, w1)"
    by (cases "registerPluginProvider (plugin_name p) ?prov w")
  then have w1: "w1 = snd (registerPlugin (currentRegistry w) (plugin_name p) ?prov w)"
    by (simp add: registerPluginProvider_def)
  have o1: "registries w1 r' = registries w r'"
    using Cons.prems by (simp add: w1 registerPlugin_others)
  have c1: "currentRegistry w1 = currentRegistry w"
    using registerPlugin_frame[of "currentRegistry w" "plugin_name p" ?prov w r1 w1] step
    by (simp add: registerPluginProvider_def)
  show ?case
  proof (cases r1)
    case (Inl e)
    with step o1 show ?thesis by simp
  next
    case (Inr u)
    with step have "snd (register_plugins (p # ps) w) = snd (register_plugins ps w1)" by simp
    moreover have "registries (snd (register_plugins ps w1)) r' = registries w1 r'"
      using Cons.IH[of w1] Cons.prems c1 by simp
    ultimately show ?thesis using o1 by simp
  qed
qed

lemma new_Genkit_effect:
  assumes "new_Genkit opts w = (res, w')"
  shows "nextRef w' = Suc (nextRef w) \<and>
         (\<forall>r. r \<noteq> nextRef w \<longrightarrow> registries w' r = registries w r) \<and>
         (\<forall>g. res = Inr g \<longrightarrow> registry g = nextRef w)"
proof -
  define w1 where "w1 = snd (new_Registry w)"
  define r0 where "r0 = fst (new_Registry w)"
  define g0 where "g0 = \<lparr> options = (case opts of Some x \<Rightarrow> x | None \<Rightarrow> no_options),
                 registry = r0, telemetryConfig = None, loggerConfig = None,
                 reflectionServer = None, flowServer = None, registeredFlows = [] \<rparr>"
  define wa where "wa = w1\<lparr> currentRegistry := r0 \<rparr>"
  obtain rc wc where C: "configure g0 wa = (rc, wc)"
    by (cases "configure g0 wa")
  define w2 where "w2 = wc\<lparr> currentRegistry := currentRegistry w1 \<rparr>"
  have R: "runWithRegistry r0 (configure g0) w1 = (rc, w2)"
    using C by (simp add: runWithRegistry_def w2_def wa_def)
  have NR: "new_Registry w = (r0, w1)" by (simp add: r0_def w1_def)
  have r0: "r0 = nextRef w" by (simp add: r0_def new_Registry_def)
  have n1: "nextRef w1 = Suc (nextRef w)" by (simp add: w1_def new_Registry_def)
  have o1: "r \<noteq> nextRef w \<Longrightarrow> registries w1 r = registries w r" for r
    by (simp add: w1_def new_Registry_def)
  have n2: "nextRef w2 = Suc (nextRef w)"
    using configure_frame[OF C] n1 by (simp add: w2_def wa_def)
  have wc: "wc = snd (register_plugins (case plugins (options g0) of None \<Rightarrow> [] | Some ps \<Rightarrow> ps) wa)"
    using snd_configure[of g0 wa] C by simp
  have o2: "r \<noteq> nextRef w \<Longrightarrow> registries w2 r = registries w r" for r
    using register_plugins_others[of r wa] o1[of r] by (simp add: w2_def wc wa_def r0)
  show ?thesis
  proof (cases rc)
    case (Inl e)
    with NR R assms have "w' = w2" "res = Inl e"
      by (simp_all add: new_Genkit_def Let_def g0_def)
    with n2 o2 show ?thesis by simp
  next
    case (Inr g1)
    obtain g2 w3 where S: "(if isDevEnv w2 then startReflectionServer g1 w2 else (g1, w2)) = (g2, w3)"
      by (cases "(if isDevEnv w2 then startReflectionServer g1 w2 else (g1, w2))")
    obtain g3 w4 where F: "startFlowServer g2 w3 = (g3, w4)"
      by (cases "startFlowServer g2 w3")
    from Inr NR R S F assms have gw: "res = g3" "w' = w4"
      by (auto simp: new_Genkit_def Let_def g0_def split: prod.splits)
    have e3: "nextRef w3 = nextRef w2 \<and> registries w3 = registries w2 \<and> registry g2 = registry g1"
      using S by (cases "isDevEnv w2")
                 (auto simp: startReflectionServer_def ReflectionServer_start_def Let_def)
    from startFlowServer_frame[OF F]
    have e4: "nextRef w4 = nextRef w3" "registries w4 = registries w3"
      "\<forall>g'. g3 = Inr g' \<longrightarrow> registry g' = registry g2"
      by simp_all
    from C Inr have "registry g1 = r0"
      using configure_genkit[of g0 wa g1 wc] by (simp add: g0_def)
    with gw e3 e4 n2 o2 r0 show ?thesis by simp
  qed
qed

lemma nextRef_apply_op: "nextRef w \<le> nextRef (apply_op x w)"
  using memo_step_apply_op[of "nextRef w - 1" "[]" w x]
  by (cases "nextRef w") (simp_all add: memo_step_def)

lemma nextRef_run_ops: "nextRef w \<le> nextRef (run_ops xs w)"
proof (induction xs arbitrary: w)
  case Nil
  show ?case by simp
next
  case (Cons x xs)
  from nextRef_apply_op[of w x] Cons.IH[of "apply_op x w"] show ?case by simp
qed


lemma snd_Genkit_defineFlow:
  "snd (Genkit_defineFlow g c f v) =
     (snd (registerAction (registry g)
            \<lparr> action_kind = ''flow'', action_name = config_name c, action_handler = f \<rparr>
            (v\<lparr> currentRegistry := registry g \<rparr>)))\<lparr> currentRegistry := currentRegistry v \<rparr>"
  by (simp add: Genkit_defineFlow_def runWithRegistry_def defineFlow_def Let_def case_prod_beta
        split: sum.splits)

lemma Genkit_defineFlow_others:
  "r' \<noteq> registry g \<Longrightarrow> registries (snd (Genkit_defineFlow g c f v)) r' = registries v r'"
  by (simp add: snd_Genkit_defineFlow registerAction_others)

lemma snd_Genkit_defineStreamingFlow:
  "snd (Genkit_defineStreamingFlow g c f v) =
     (snd (registerAction (registry g)
            \<lparr> action_kind = ''flow'', action_name = config_name c, action_handler = f \<rparr>
            (v\<lparr> currentRegistry := registry g \<rparr>)))\<lparr> currentRegistry := currentRegistry v \<rparr>"
  by (simp add: Genkit_defineStreamingFlow_def runWithRegistry_def defineStreamingFlow_def Let_def case_prod_beta
        split: sum.splits)

lemma Genkit_defineStreamingFlow_others:
  "r' \<noteq> registry g \<Longrightarrow> registries (snd (Genkit_defineStreamingFlow g c f v)) r' = registries v r'"
  by (simp add: snd_Genkit_defineStreamingFlow registerAction_others)

text \<open>
  Two Genkit instances constructed in one process, whatever the host does between the two
  constructions, own different Registries, and constructing the second leaves the
  Registry of the first as it was. What is registered on, or resolved in, the Registry of
  one instance leaves every other Registry as it was, so the same (kind, name) pair is
  registered on each of two Registries with the outcome it would have alone.
\<close>

lemma new_Genkit_own_registry:
  assumes "new_Genkit o1 w = (Inr g1, w1)"
      and "new_Genkit o2 (run_ops ops w1) = (Inr g2, w2)"
  shows "registry g1 \<noteq> registry g2 \<and>
         registries w2 (registry g1) = registries (run_ops ops w1) (registry g1)"
proof -
  from new_Genkit_effect[OF assms(1)]
  have a: "registry g1 = nextRef w" "nextRef w1 = Suc (nextRef w)" by simp_all
  from new_Genkit_effect[OF assms(2)]
  have b: "registry g2 = nextRef (run_ops ops w1)"
    "\<forall>r. r \<noteq> nextRef (run_ops ops w1) \<longrightarrow> registries w2 r = registries (run_ops ops w1) r"
    by simp_all
  from nextRef_run_ops[of w1 ops] a b have ne: "registry g1 \<noteq> registry g2" by simp
  with b show ?thesis by simp
qed

lemma registerAction_independent:
  "r' \<noteq> r \<Longrightarrow>
     fst (registerAction r' a (snd (registerAction r a v))) = fst (registerAction r' a v) \<and>
     lookupAction r' k n (snd (registerAction r a v)) = lookupAction r' k n v"
  by (simp add: registerAction_others lookupAction_def registerAction_outcome)

lemmas eval_genkit =
  new_Genkit_def new_Registry_def runWithRegistry_def configure_def no_options_def
  initial_process_def isDevEnv_def getCurrentEnv_def truthy_str_def
  registerPluginProvider_def registerPlugin_def put_Registry_def empty_Registry_def
  resolvePlugin_def registerAction_def lookupAction_def cached_def
  startReflectionServer_def ReflectionServer_start_def startFlowServer_def Let_def

lemmas eval_tenants =
  first_tenant_def second_tenant_def telemetry_options_def telemetry_plugin_def
  getTelemetryConfig_def resolveTelemetryConfig_def initializePlugin_def

text \<open>
  C8 does not hold of \<open>getTelemetryConfig\<close>. The class comments say that the Registry of an
  instance is exclusively modified by that instance and that \<open>runWithRegistry\<close> is used
  throughout the class; \<open>configure\<close>, \<open>defineFlow\<close> and \<open>defineStreamingFlow\<close> do bind
  \<open>this.registry\<close>, but \<open>resolveTelemetryConfig\<close> calls \<open>registry.initializePlugin\<close> with
  no binding, so the plugin is resolved in whatever Registry is ambient at the call.

  Two instances are constructed, each with its own plugin \<open>creds\<close> (telemetry
  configuration 5 for the first, 7 for the second) in its own Registry (1 and 2). Called
  while the Registry of the second instance is ambient, \<open>getTelemetryConfig\<close> of the first
  instance returns the configuration 7 of the plugin of the second instance, runs the
  initializer for Registry 2 and memoizes the result in the plugin cache of Registry 2,
  leaving its own cache empty. Called with no binding, it looks in the default Registry 0
  and does not find the plugin that its own Registry holds.
\<close>

theorem getTelemetryConfig_crosses_registries:
  "\<exists>g1 g2. fst first_tenant = Inr g1 \<and> fst second_tenant = Inr g2 \<and>
      registry g1 = 1 \<and> registry g2 = 2 \<and>
      provider_of 1 ''creds'' (snd second_tenant) = Some (telemetry_plugin 5) \<and>
      provider_of 2 ''creds'' (snd second_tenant) = Some (telemetry_plugin 7) \<and>
      cached 2 ''creds'' (snd second_tenant) = None \<and>
      fst (runWithRegistry (registry g2) (getTelemetryConfig g1) (snd second_tenant)) =
        Inr (PluginTelemetryConfig 7) \<and>
      cached 2 ''creds'' (snd (runWithRegistry (registry g2) (getTelemetryConfig g1) (snd second_tenant))) =
        Some (Inr \<lparr> telemetry_instrumentation = Some 7, telemetry_logger = None \<rparr>) \<and>
      cached 1 ''creds'' (snd (runWithRegistry (registry g2) (getTelemetryConfig g1) (snd second_tenant))) =
        None \<and>
      initLog (snd (runWithRegistry (registry g2) (getTelemetryConfig g1) (snd second_tenant))) =
        [(2, ''creds'')] \<and>
      fst (getTelemetryConfig g1 (snd second_tenant)) =
        Inl (Error ''Unable to resolve provider `telemetry.instrumentation` for plugin: creds'')"
proof -
  define g1 where "g1 = \<lparr> options = telemetry_options 5, registry = 1,
      telemetryConfig = Some ''creds'', loggerConfig = None,
      reflectionServer = None, flowServer = None, registeredFlows = [] \<rparr>"
  define g2 where "g2 = \<lparr> options = telemetry_options 7, registry = 2,
      telemetryConfig = Some ''creds'', loggerConfig = None,
      reflectionServer = None, flowServer = None, registeredFlows = [] \<rparr>"
  define w2 where "w2 = snd second_tenant"
  have f1: "fst first_tenant = Inr g1"
    by (simp add: eval_tenants eval_genkit g1_def)
  have f2: "fst second_tenant = Inr g2"
    by (simp add: eval_tenants eval_genkit g2_def)
  have r: "registry g1 = 1" "registry g2 = 2" "telemetryConfig g1 = Some ''creds''"
    by (simp_all add: g1_def g2_def)
  have p1: "provider_of 1 ''creds'' w2 = Some (telemetry_plugin 5)"
    unfolding w2_def by (simp add: eval_tenants eval_genkit provider_of_def)
  have p2: "provider_of 2 ''creds'' w2 = Some (telemetry_plugin 7)"
    unfolding w2_def by (simp add: eval_tenants eval_genkit provider_of_def)
  have c0: "cached 2 ''creds'' w2 = None"
    unfolding w2_def by (simp add: eval_tenants eval_genkit)
  have a: "fst (runWithRegistry 2 (getTelemetryConfig g1) w2) = Inr (PluginTelemetryConfig 7)"
    unfolding w2_def by (simp add: r eval_tenants eval_genkit)
  have b: "cached 2 ''creds'' (snd (runWithRegistry 2 (getTelemetryConfig g1) w2)) =
        Some (Inr \<lparr> telemetry_instrumentation = Some 7, telemetry_logger = None \<rparr>)"
    unfolding w2_def by (simp add: r eval_tenants eval_genkit)
  have c: "cached 1 ''creds'' (snd (runWithRegistry 2 (getTelemetryConfig g1) w2)) = None"
    unfolding w2_def by (simp add: r eval_tenants eval_genkit)
  have d: "initLog (snd (runWithRegistry 2 (getTelemetryConfig g1) w2)) = [(2, ''creds'')]"
    unfolding w2_def by (simp add: r eval_tenants eval_genkit)
  have e: "fst (getTelemetryConfig g1 w2) =
        Inl (Error ''Unable to resolve provider `telemetry.instrumentation` for plugin: creds'')"
    unfolding w2_def by (simp add: r eval_tenants eval_genkit)
  from f1 f2 r p1 p2 c0 a b c d e show ?thesis
    unfolding w2_def by auto
qed

section \<open>The Reflection server\<close>

lemma registerAction_reflection:
  "reflectionServers (snd (registerAction r a w)) = reflectionServers w"
  by (simp add: registerAction_def put_Registry_def Let_def)

lemma resolvePlugin_reflection:
  "reflectionServers (snd (resolvePlugin r nm w)) = reflectionServers w"
  by (simp add: resolvePlugin_def put_Registry_def Let_def split: option.splits sum.splits)

lemma Genkit_defineFlow_reflection:
  "reflectionServers (snd (Genkit_defineFlow g c f v)) = reflectionServers v"
  "fst (Genkit_defineFlow g c f v) = Inr (fl, g') \<Longrightarrow> reflectionServer g' = reflectionServer g"
  by (auto simp: snd_Genkit_defineFlow registerAction_reflection Genkit_defineFlow_def
        runWithRegistry_def defineFlow_def Let_def case_prod_beta split: sum.splits)

lemma Genkit_defineStreamingFlow_reflection:
  "reflectionServers (snd (Genkit_defineStreamingFlow g c f v)) = reflectionServers v"
  "fst (Genkit_defineStreamingFlow g c f v) = Inr (fl, g') \<Longrightarrow> reflectionServer g' = reflectionServer g"
  by (auto simp: snd_Genkit_defineStreamingFlow registerAction_reflection Genkit_defineStreamingFlow_def
        runWithRegistry_def defineStreamingFlow_def Let_def case_prod_beta split: sum.splits)

lemma getTelemetryConfig_reflection:
  "reflectionServers (snd (getTelemetryConfig g v)) = reflectionServers v"
  by (cases "telemetryConfig g")
     (simp_all add: getTelemetryConfig_def snd_resolveTelemetryConfig resolvePlugin_reflection)

text \<open>
  C5: a Reflection server is started for a Genkit instance if and only if the environment
  variable \<open>GENKIT_ENV\<close> is \<open>dev\<close> when the instance is constructed: the field
  \<open>reflectionServer\<close> is set exactly then, and exactly then one server, for the registry
  of the instance, is added to the Reflection servers of the process. Nothing the instance
  does afterwards (defining a flow or a streaming flow, reading the telemetry
  configuration) starts a Reflection server or changes the field.
\<close>

theorem reflection_server_iff_dev:
  assumes A: "new_Genkit opts w = (Inr g, w')"
  shows "(reflectionServer g \<noteq> None \<longleftrightarrow> env w ''GENKIT_ENV'' = Some ''dev'') \<and>
         reflectionServers w' =
           (if env w ''GENKIT_ENV'' = Some ''dev''
            then reflectionServers w @ [\<lparr> reflection_registry = registry g \<rparr>]
            else reflectionServers w) \<and>
         (\<forall>c f v. reflectionServers (snd (Genkit_defineFlow g c f v)) = reflectionServers v \<and>
                  reflectionServers (snd (Genkit_defineStreamingFlow g c f v)) = reflectionServers v \<and>
                  (\<forall>fl g'. fst (Genkit_defineFlow g c f v) = Inr (fl, g') \<or>
                           fst (Genkit_defineStreamingFlow g c f v) = Inr (fl, g') \<longrightarrow>
                           reflectionServer g' = reflectionServer g)) \<and>
         (\<forall>v. reflectionServers (snd (getTelemetryConfig g v)) = reflectionServers v)"
proof -
  define w1 where "w1 = snd (new_Registry w)"
  define r where "r = fst (new_Registry w)"
  define g0 where "g0 = \<lparr> options = (case opts of Some x \<Rightarrow> x | None \<Rightarrow> no_options),
                 registry = r, telemetryConfig = None, loggerConfig = None,
                 reflectionServer = None, flowServer = None, registeredFlows = [] \<rparr>"
  obtain res wc where C: "configure g0 (w1\<lparr> currentRegistry := r \<rparr>) = (res, wc)"
    by (cases "configure g0 (w1\<lparr> currentRegistry := r \<rparr>)")
  define w2 where "w2 = wc\<lparr> currentRegistry := currentRegistry w1 \<rparr>"
  have R: "runWithRegistry r (configure g0) w1 = (res, w2)"
    by (simp add: runWithRegistry_def C w2_def)
  have NR: "new_Registry w = (r, w1)" by (simp add: r_def w1_def)
  from A NR R obtain g1 where res: "res = Inr g1"
    by (cases res) (auto simp: new_Genkit_def Let_def g0_def split: prod.splits)
  obtain g2 w3 where S: "(if isDevEnv w2 then startReflectionServer g1 w2 else (g1, w2)) = (g2, w3)"
    by (cases "(if isDevEnv w2 then startReflectionServer g1 w2 else (g1, w2))")
  obtain g3 w4 where F: "startFlowServer g2 w3 = (g3, w4)"
    by (cases "startFlowServer g2 w3")
  from A NR R res S F have gw: "g3 = Inr g" "w' = w4"
    by (auto simp: new_Genkit_def Let_def g0_def split: prod.splits)
  have e1: "env w1 = env w" "reflectionServers w1 = reflectionServers w"
    by (simp_all add: w1_def new_Registry_def)
  from configure_frame[OF C] have e2: "env w2 = env w" "reflectionServers w2 = reflectionServers w"
    by (simp_all add: w2_def e1)
  from C res have g1: "reflectionServer g1 = None" "registry g1 = r"
    using configure_genkit[of g0 _ g1 wc] by (simp_all add: g0_def)
  have dev: "isDevEnv w2 \<longleftrightarrow> env w ''GENKIT_ENV'' = Some ''dev''"
    by (simp add: isDevEnv_iff e2)
  from startFlowServer_frame[OF F] gw have f: "reflectionServers w4 = reflectionServers w3"
     "reflectionServer g = reflectionServer g2" "registry g = registry g2" by simp_all
  have main: "(reflectionServer g \<noteq> None \<longleftrightarrow> env w ''GENKIT_ENV'' = Some ''dev'') \<and>
         reflectionServers w' =
           (if env w ''GENKIT_ENV'' = Some ''dev''
            then reflectionServers w @ [\<lparr> reflection_registry = registry g \<rparr>]
            else reflectionServers w)"
  proof (cases "isDevEnv w2")
    case True
    with S have "g2 = g1\<lparr> reflectionServer := Some \<lparr> reflection_registry = registry g1 \<rparr> \<rparr>"
      "w3 = ReflectionServer_start \<lparr> reflection_registry = registry g1 \<rparr> w2"
      by (simp_all add: startReflectionServer_def Let_def)
    with True dev f gw e2 show ?thesis by (simp add: ReflectionServer_start_def)
  next
    case False
    with S have "g2 = g1" "w3 = w2" by simp_all
    with False dev f gw e2 g1 show ?thesis by simp
  qed
  have later: "\<forall>c f v. reflectionServers (snd (Genkit_defineFlow g c f v)) = reflectionServers v \<and>
                  reflectionServers (snd (Genkit_defineStreamingFlow g c f v)) = reflectionServers v \<and>
                  (\<forall>fl g'. fst (Genkit_defineFlow g c f v) = Inr (fl, g') \<or>
                           fst (Genkit_defineStreamingFlow g c f v) = Inr (fl, g') \<longrightarrow>
                           reflectionServer g' = reflectionServer g)"
    using Genkit_defineFlow_reflection Genkit_defineStreamingFlow_reflection by blast
  from main later getTelemetryConfig_reflection show ?thesis by blast
qed

theorem reflection_server_iff_dev_witness:
  "(\<exists>g w'. new_Genkit None (initial_process [''GENKIT_ENV'' \<mapsto> ''dev'']) = (Inr g, w') \<and>
       reflectionServer g \<noteq> None \<and>
       reflectionServers w' = [\<lparr> reflection_registry = registry g \<rparr>]) \<and>
   (\<exists>g w'. new_Genkit None (initial_process [''GENKIT_ENV'' \<mapsto> ''prod'']) = (Inr g, w') \<and>
       reflectionServer g = None \<and> reflectionServers w' = [])"
proof -
  let ?dev = "initial_process [''GENKIT_ENV'' \<mapsto> ''dev'']"
  let ?prod = "initial_process [''GENKIT_ENV'' \<mapsto> ''prod'']"
  obtain g w' where d: "new_Genkit None ?dev = (Inr g, w')"
    by (simp add: new_Genkit_def new_Registry_def runWithRegistry_def configure_def no_options_def
          initial_process_def isDevEnv_def getCurrentEnv_def truthy_str_def
          startReflectionServer_def ReflectionServer_start_def startFlowServer_def Let_def)
  obtain h v' where p: "new_Genkit None ?prod = (Inr h, v')"
    by (simp add: new_Genkit_def new_Registry_def runWithRegistry_def configure_def no_options_def
          initial_process_def isDevEnv_def getCurrentEnv_def truthy_str_def
          startReflectionServer_def ReflectionServer_start_def startFlowServer_def Let_def)
  from reflection_server_iff_dev[OF d]
  have "reflectionServer g \<noteq> None \<and> reflectionServers w' = [\<lparr> reflection_registry = registry g \<rparr>]"
    by (simp add: initial_process_def)
  moreover from reflection_server_iff_dev[OF p]
  have "reflectionServer h = None \<and> reflectionServers v' = []"
    by (simp add: initial_process_def)
  ultimately show ?thesis using d p by blast
qed

section \<open>Properties of the Generation Loop\<close>

text \<open>
  The concrete scenario of the specification: the first model call asks for
  \<open>specialTool\<close> with the meal lunch, the tool returns its special, and the second model
  call, given the history with the ToolResponse, stops. The automatic run returns that
  final message, with the model invoked exactly twice.
\<close>

lemma beans_scenario:
  "generate beans_generation lunch_prompt =
     (Inr \<lparr> candidate = \<lparr> message = beans_message, finishReason = Stop \<rparr>, pendingRequests = [] \<rparr>,
      \<lparr> history = lunch_prompt @
                   [message (top_candidate (tool_call_response ''specialTool'')),
                    \<lparr> role = ToolRole,
                      content = [ToolResponsePart
                        \<lparr> response_name = ''specialTool'', response_ref = ''r1'',
                          response_output = Inr ''Baked beans on toast'' \<rparr>] \<rparr>],
        roundTrips = 1, modelCalls = 2, toolLookups = 1, toolInvocations = 1 \<rparr>)"
  unfolding generate_def
  apply (subst generateLoop.simps)
  apply (simp add: beans_generation_def stub_generation_def initial_state_def lunch_prompt_def
           beans_model_def tool_call_response_def Let_def resolveToolRequest_def specialTool_def)
  apply (subst generateLoop.simps)
  apply (simp add: beans_model_def Let_def)
  done













text \<open>
  C6: a run with \<open>returnToolRequests\<close> set whose model candidate has finish reason
  tool-call (the model is invoked: the run is not cancelled before its first round trip
  and the capability check passes) ends right after the model call and returns the
  candidate with its pending ToolRequests; the model was called once, no tool was looked
  up or invoked, and the history is the one given, with no ToolResponse appended.
\<close>

theorem manual_mode_returns_requests:
  assumes "returnToolRequests G"
      and "\<not> cancelled G 0"
      and "toolSet G = [] \<or> supportsTools G"
      and "finishReason (top_candidate (model G (first_request G H))) = ToolCall"
  shows "\<exists>s. generate G H =
               (Inr \<lparr> candidate = top_candidate (model G (first_request G H)),
                      pendingRequests =
                        toolRequests (content (message (top_candidate (model G (first_request G H))))) \<rparr>,
                s) \<and>
             modelCalls s = 1 \<and> toolLookups s = 0 \<and> toolInvocations s = 0 \<and>
             history s = H \<and> roundTrips s = 0"
proof -
  have cap': "\<not> (toolSet G \<noteq> [] \<and> \<not> supportsTools G)" using assms(3) by blast
  have "generate G H =
          (Inr \<lparr> candidate = top_candidate (model G (first_request G H)),
                 pendingRequests =
                   toolRequests (content (message (top_candidate (model G (first_request G H))))) \<rparr>,
           (initial_state H)\<lparr> modelCalls := 1 \<rparr>)"
    unfolding generate_def
    by (subst generateLoop.simps)
       (simp add: Let_def assms(1,2) cap' initial_state_def first_request_def)
  then show ?thesis by (simp add: initial_state_def)
qed

theorem manual_mode_returns_requests_witness:
  "\<exists>s. generate (stub_generation ''specialTool'' True 2) [] =
         (Inr \<lparr> candidate = top_candidate (tool_call_response ''specialTool''),
                pendingRequests =
                  [\<lparr> request_name = ''specialTool'', request_ref = ''r1'', request_input = ''lunch'' \<rparr>] \<rparr>,
          s) \<and>
       modelCalls s = 1 \<and> toolLookups s = 0 \<and> toolInvocations s = 0 \<and> history s = [] \<and>
       roundTrips s = 0"
proof -
  let ?G = "stub_generation ''specialTool'' True 2"
  have h1: "returnToolRequests ?G" by (simp add: stub_generation_def)
  have h2: "\<not> cancelled ?G 0" by (simp add: stub_generation_def)
  have h3: "toolSet ?G = [] \<or> supportsTools ?G" by (simp add: stub_generation_def)
  have h4: "finishReason (top_candidate (model ?G (first_request ?G []))) = ToolCall"
    by (simp add: stub_generation_def tool_call_response_def)
  have m: "model ?G (first_request ?G []) = tool_call_response ''specialTool''"
    by (simp add: stub_generation_def)
  have r: "toolRequests (content (message (top_candidate (tool_call_response ''specialTool'')))) =
       [\<lparr> request_name = ''specialTool'', request_ref = ''r1'', request_input = ''lunch'' \<rparr>]"
    by (simp add: tool_call_response_def)
  from manual_mode_returns_requests[OF h1 h2 h3 h4] show ?thesis
    by (simp add: m r)
qed

section \<open>Properties of streams\<close>

lemma stream_inv_start:
  "stream_inv (emitted (handler input True)) (outcome (handler input True)) (stream handler input)"
  by (simp add: stream_inv_def stream_def)

lemma stream_inv_step:
  assumes "stream_inv cs r s"
  shows "stream_inv cs r (stream_step a s)"
proof (cases a)
  case Handler
  show ?thesis
  proof (cases "running s")
    case None
    with assms Handler show ?thesis by simp
  next
    case (Some q)
    with assms Handler show ?thesis
      by (cases q) (auto simp: stream_inv_def)
  qed
next
  case Consumer
  show ?thesis
  proof (cases "queue s")
    case Nil
    with assms Consumer show ?thesis by simp
  next
    case (Cons c rest)
    with assms Consumer show ?thesis
      by (auto simp: stream_inv_def split: option.splits)
  qed
qed

lemma stream_inv_run:
  "stream_inv cs r s \<Longrightarrow> stream_inv cs r (stream_run sched s)"
  by (induction sched arbitrary: s) (simp_all add: stream_inv_step)

lemma stream_inv_facts:
  assumes "stream_inv cs r s"
  shows "prefix (delivered s) cs"
    and "final s = None \<or> final s = Some r"
    and "final s = Some r \<longrightarrow> delivered s @ queue s = cs"
  using assms by (auto simp: stream_inv_def prefix_def split: option.splits)

lemma handler_steps_end:
  assumes "stream_inv cs r s"
      and "(case running s of None \<Rightarrow> 0 | Some q \<Rightarrow> Suc (length (emitted q))) \<le> n"
  shows "running (stream_run (replicate n Handler) s) = None"
  using assms
proof (induction n arbitrary: s)
  case 0
  then show ?case by (simp split: option.splits)
next
  case (Suc n)
  show ?case
  proof (cases "running s")
    case None
    then have "stream_step Handler s = s" by simp
    with Suc.IH[of s] Suc.prems(1) None show ?thesis by simp
  next
    case (Some q)
    have inv: "stream_inv cs r (stream_step Handler s)"
      using Suc.prems(1) by (rule stream_inv_step)
    have "(case running (stream_step Handler s) of None \<Rightarrow> 0 | Some q \<Rightarrow> Suc (length (emitted q))) \<le> n"
      using Suc.prems(2) Some by (cases q) simp_all
    from Suc.IH[OF inv this] show ?thesis by simp
  qed
qed

lemma consumer_steps_drain:
  assumes "running s = None" and "length (queue s) \<le> n"
  shows "queue (stream_run (replicate n Consumer) s) = [] \<and>
         delivered (stream_run (replicate n Consumer) s) = delivered s @ queue s \<and>
         final (stream_run (replicate n Consumer) s) = final s"
  using assms
proof (induction n arbitrary: s)
  case 0
  then show ?case by simp
next
  case (Suc n)
  show ?case
  proof (cases "queue s")
    case Nil
    then have "stream_step Consumer s = s" by simp
    with Suc.IH[of s] Suc.prems Nil show ?thesis by simp
  next
    case (Cons c rest)
    let ?t = "stream_step Consumer s"
    have t: "running ?t = None" "queue ?t = rest" "delivered ?t = delivered s @ [c]" "final ?t = final s"
      using Cons Suc.prems(1) by simp_all
    have "length (queue ?t) \<le> n" using Suc.prems(2) Cons t by simp
    from Suc.IH[OF t(1) this] t Cons show ?thesis by simp
  qed
qed

lemma stream_run_append: "stream_run (xs @ ys) s = stream_run ys (stream_run xs s)"
  by (induction xs arbitrary: s) simp_all

lemma drain_result:
  assumes "stream_inv cs r s"
  shows "delivered (drain (length cs) s) = cs \<and> queue (drain (length cs) s) = [] \<and>
         final (drain (length cs) s) = Some r"
proof -
  let ?h = "stream_run (replicate (Suc (length cs)) Handler) s"
  have "(case running s of None \<Rightarrow> 0 | Some q \<Rightarrow> Suc (length (emitted q))) \<le> Suc (length cs)"
    using assms by (auto simp: stream_inv_def split: option.splits)
  from handler_steps_end[OF assms this] have e: "running ?h = None" .
  have inv: "stream_inv cs r ?h" using assms by (rule stream_inv_run)
  with e have f: "final ?h = Some r" "delivered ?h @ queue ?h = cs"
    by (simp_all add: stream_inv_def)
  then have "length (queue ?h) \<le> length cs"
    by (metis length_append le_add2)
  from consumer_steps_drain[OF e this] f show ?thesis
    by (simp add: drain_def stream_run_append)
qed

text \<open>
  C2: for a handler whose run, given a sink, emits the chunks \<open>cs\<close> and then returns \<open>v\<close>,
  in every interleaving of handler and consumer: what the consumer has observed is a
  prefix of \<open>cs\<close>, in the handler's order; the final promise is pending or resolved with
  \<open>v\<close>, and once it is resolved every chunk of \<open>cs\<close> has been observed or is queued for the
  consumer, so the promise never resolves before the last chunk is observable; and a
  consumer that drains the stream has observed exactly \<open>cs\<close> and finds the promise
  resolved with \<open>v\<close>. With \<open>cs\<close> empty (the handler never calls the sink) the chunk
  sequence is empty and the promise resolves with \<open>v\<close>.
\<close>

theorem stream_chunks_then_final:
  assumes "emitted (handler input True) = cs"
      and "outcome (handler input True) = Inr v"
  shows "\<forall>sched.
           let s = stream_run sched (stream handler input) in
             prefix (delivered s) cs \<and>
             (final s = None \<or> final s = Some (Inr v)) \<and>
             (final s = Some (Inr v) \<longrightarrow> delivered s @ queue s = cs) \<and>
             delivered (drain (length cs) s) = cs \<and>
             final (drain (length cs) s) = Some (Inr v)"
proof -
  have "stream_inv cs (Inr v) (stream_run sched (stream handler input))" for sched
    using stream_inv_run[OF stream_inv_start[of handler input], of sched] assms by simp
  then show ?thesis
    using stream_inv_facts drain_result by (metis (no_types, lifting))
qed

text \<open>
  C7: for a handler whose run emits the chunks \<open>cs\<close> and then raises \<open>e\<close>, in every
  interleaving of handler and consumer: what the consumer has observed is a prefix of
  \<open>cs\<close>; the final promise is pending or rejected with \<open>e\<close>, and a consumer that drains the
  stream has observed exactly \<open>cs\<close>, where the chunk sequence ends, and finds the promise
  rejected with the same \<open>e\<close>.
\<close>

theorem stream_error_ends_chunks:
  assumes "emitted (handler input True) = cs"
      and "outcome (handler input True) = Inl e"
  shows "\<forall>sched.
           let s = stream_run sched (stream handler input) in
             prefix (delivered s) cs \<and>
             (final s = None \<or> final s = Some (Inl e)) \<and>
             (final s = Some (Inl e) \<longrightarrow> delivered s @ queue s = cs) \<and>
             delivered (drain (length cs) s) = cs \<and>
             final (drain (length cs) s) = Some (Inl e)"
proof -
  have "stream_inv cs (Inl e) (stream_run sched (stream handler input))" for sched
    using stream_inv_run[OF stream_inv_start[of handler input], of sched] assms by simp
  then show ?thesis
    using stream_inv_facts drain_result by (metis (no_types, lifting))
qed

lemma streamy_3:
  "emitted (streamy 3 True) = [\<lparr> Count = 0 \<rparr>, \<lparr> Count = 1 \<rparr>, \<lparr> Count = 2 \<rparr>]"
  "outcome (streamy 3 True) = Inr ''done 3, streamed: 3 times''"
  by (simp_all add: streamy_def streamy_loop.simps dec_int_def dec_nat.simps)

lemma streamy_0:
  "emitted (streamy 0 True) = []"
  "outcome (streamy 0 True) = Inr ''done 0, streamed: 0 times''"
  by (simp_all add: streamy_def streamy_loop.simps dec_int_def dec_nat.simps)

lemma streamyThrowy_5:
  "emitted (streamyThrowy 5 True) = [\<lparr> Count = 0 \<rparr>, \<lparr> Count = 1 \<rparr>, \<lparr> Count = 2 \<rparr>]"
  "outcome (streamyThrowy 5 True) = Inl (Error ''boom!'')"
  by (simp_all add: streamyThrowy_def streamyThrowy_loop.simps)

theorem stream_chunks_then_final_witness:
  "(let s = stream_run [Handler, Consumer, Handler] (stream streamy 3) in
      prefix (delivered s) [\<lparr> Count = 0 \<rparr>, \<lparr> Count = 1 \<rparr>, \<lparr> Count = 2 \<rparr>] \<and>
      delivered (drain 3 s) = [\<lparr> Count = 0 \<rparr>, \<lparr> Count = 1 \<rparr>, \<lparr> Count = 2 \<rparr>] \<and>
      final (drain 3 s) = Some (Inr ''done 3, streamed: 3 times'')) \<and>
   (let s = stream_run [Consumer] (stream streamy 0) in
      delivered (drain 0 s) = [] \<and>
      final (drain 0 s) = Some (Inr ''done 0, streamed: 0 times''))"
  using stream_chunks_then_final[where handler = streamy and input = 3, OF streamy_3, THEN spec,
          of "[Handler, Consumer, Handler]"]
        stream_chunks_then_final[where handler = streamy and input = 0, OF streamy_0, THEN spec,
          of "[Consumer]"]
  by (simp add: Let_def numeral_3_eq_3 del: stream_run.simps)

theorem stream_error_ends_chunks_witness:
  "(let s = stream_run [Handler, Handler, Consumer] (stream streamyThrowy 5) in
      prefix (delivered s) [\<lparr> Count = 0 \<rparr>, \<lparr> Count = 1 \<rparr>, \<lparr> Count = 2 \<rparr>] \<and>
      delivered (drain 3 s) = [\<lparr> Count = 0 \<rparr>, \<lparr> Count = 1 \<rparr>, \<lparr> Count = 2 \<rparr>] \<and>
      final (drain 3 s) = Some (Inl (Error ''boom!'')))"
  using stream_error_ends_chunks[where handler = streamyThrowy and input = 5, OF streamyThrowy_5,
          THEN spec, of "[Handler, Handler, Consumer]"]
  by (simp add: Let_def numeral_3_eq_3 del: stream_run.simps)

section \<open>Properties of the handler of \<open>SIGTERM\<close>\<close>

lemma serving_host_servers:
  "reflectionServers serving_host = [\<lparr> reflection_registry = 1 \<rparr>]"
  "httpServers serving_host = [\<lparr> listen_port = Num 3400, routes = [] \<rparr>]"
  by (simp_all add: serving_host_def serving_options_def new_Genkit_def new_Registry_def
        runWithRegistry_def configure_def no_options_def initial_process_def isDevEnv_def
        getCurrentEnv_def truthy_str_def startReflectionServer_def ReflectionServer_start_def
        startFlowServer_def js_or_def Let_def)

lemma sigterm_handler_process:
  "httpServers (snd (sigterm_handler a stays b first w)) = httpServers w"
  "reflectionServers (snd (sigterm_handler Resolves stays b first w)) = []"
  by (simp_all add: sigterm_handler_def ReflectionServer_stopAll_def cleanUpTracing_def
        Let_def case_prod_beta split: settlement.splits)

text \<open>
  C4, as stated, fails, in three ways. The two tasks run concurrently, so the telemetry
  exporters may be closed before the Reflection servers are stopped. When one of the two
  promises never settles the handler never exits, here with the Reflection server
  already stopped and the exporters closed. And when \<open>stopAll\<close> rejects, the handler ends
  there, without \<open>process.exit\<close>.
\<close>

theorem sigterm_counterexample:
  "fst (sigterm_handler Resolves {} Resolves CleanUpTracing serving_host) =
     [Debug ''Received SIGTERM. Shutting down all reflection servers and cleaning up tracing...'',
      Called StopAll, Called CleanUpTracing, Settled CleanUpTracing, Settled StopAll, Exit 0] \<and>
   sigterm_handler Resolves {} NeverSettles StopAll serving_host =
     ([Debug ''Received SIGTERM. Shutting down all reflection servers and cleaning up tracing...'',
       Called StopAll, Called CleanUpTracing, Settled StopAll],
      serving_host\<lparr> reflectionServers := [] \<rparr>) \<and>
   fst (sigterm_handler NeverSettles UNIV Resolves StopAll serving_host) =
     [Debug ''Received SIGTERM. Shutting down all reflection servers and cleaning up tracing...'',
      Called StopAll, Called CleanUpTracing, Settled CleanUpTracing] \<and>
   fst (sigterm_handler (Rejects (Error ''close failed'')) UNIV Resolves StopAll serving_host) =
     [Debug ''Received SIGTERM. Shutting down all reflection servers and cleaning up tracing...'',
      Called StopAll, Called CleanUpTracing, Failed StopAll (Error ''close failed'')]"
  by (simp add: sigterm_handler_def ReflectionServer_stopAll_def cleanUpTracing_def Let_def)

text \<open>
  C4, amended: on \<open>SIGTERM\<close> the handler writes a line to the debug log, calls
  \<open>ReflectionServer.stopAll()\<close> and then \<open>cleanUpTracing()\<close> without waiting for the first to
  finish, and waits for both with no limit of time. It calls \<open>process.exit\<close> if and only if
  both promises resolve, in whichever order; the code is then 0, the exit is the last
  thing it does and no Reflection server is left. If one of them rejects or never
  settles, the handler does not exit. In every case the flow servers of the process are
  as they were: the handler does not stop them.
\<close>

theorem sigterm_handler_trace:
  "take 3 (fst (sigterm_handler a stays b first w)) =
     [Debug ''Received SIGTERM. Shutting down all reflection servers and cleaning up tracing...'',
      Called StopAll, Called CleanUpTracing] \<and>
   ((\<exists>c. Exit c \<in> set (fst (sigterm_handler a stays b first w))) \<longleftrightarrow>
      a = Resolves \<and> b = Resolves) \<and>
   (a = Resolves \<and> b = Resolves \<longrightarrow>
      drop 3 (fst (sigterm_handler a stays b first w)) =
        (if first = StopAll then [Settled StopAll, Settled CleanUpTracing]
         else [Settled CleanUpTracing, Settled StopAll]) @ [Exit 0] \<and>
      reflectionServers (snd (sigterm_handler a stays b first w)) = []) \<and>
   httpServers (snd (sigterm_handler a stays b first w)) = httpServers w"
proof -
  have t: "fst (sigterm_handler a stays b first w) =
      [Debug ''Received SIGTERM. Shutting down all reflection servers and cleaning up tracing...'',
       Called StopAll, Called CleanUpTracing] @
      fst (await_all (if first = StopAll then [(StopAll, a), (CleanUpTracing, b)]
                      else [(CleanUpTracing, b), (StopAll, a)])) @
      (case snd (await_all (if first = StopAll then [(StopAll, a), (CleanUpTracing, b)]
                            else [(CleanUpTracing, b), (StopAll, a)])) of
         Resolves \<Rightarrow> [Exit 0] | Rejects e \<Rightarrow> [] | NeverSettles \<Rightarrow> [])"
    by (simp add: sigterm_handler_def ReflectionServer_stopAll_def cleanUpTracing_def
          Let_def case_prod_beta split: settlement.splits)
  have c1: "take 3 (fst (sigterm_handler a stays b first w)) =
     [Debug ''Received SIGTERM. Shutting down all reflection servers and cleaning up tracing...'',
      Called StopAll, Called CleanUpTracing]"
    by (simp add: t)
  have c2: "(\<exists>c. Exit c \<in> set (fst (sigterm_handler a stays b first w))) \<longleftrightarrow>
      a = Resolves \<and> b = Resolves"
    unfolding t by (cases a; cases b; cases first) (simp_all add: Let_def)
  have c3: "a = Resolves \<and> b = Resolves \<longrightarrow>
      drop 3 (fst (sigterm_handler a stays b first w)) =
        (if first = StopAll then [Settled StopAll, Settled CleanUpTracing]
         else [Settled CleanUpTracing, Settled StopAll]) @ [Exit 0] \<and>
      reflectionServers (snd (sigterm_handler a stays b first w)) = []"
    unfolding t by (cases first) (simp_all add: Let_def sigterm_handler_process)
  from c1 c2 c3 sigterm_handler_process(1)[of a stays b first w] show ?thesis by blast
qed

theorem sigterm_handler_trace_witness:
  "fst (sigterm_handler Resolves {} Resolves StopAll serving_host) =
     [Debug ''Received SIGTERM. Shutting down all reflection servers and cleaning up tracing...'',
      Called StopAll, Called CleanUpTracing, Settled StopAll, Settled CleanUpTracing, Exit 0] \<and>
   reflectionServers serving_host = [\<lparr> reflection_registry = 1 \<rparr>] \<and>
   reflectionServers (snd (sigterm_handler Resolves {} Resolves StopAll serving_host)) = [] \<and>
   httpServers (snd (sigterm_handler Resolves {} Resolves StopAll serving_host)) =
     [\<lparr> listen_port = Num 3400, routes = [] \<rparr>]"
proof -
  let ?tr = "fst (sigterm_handler Resolves {} Resolves StopAll serving_host)"
  from sigterm_handler_trace[of Resolves "{}" Resolves StopAll serving_host]
  have a: "take 3 ?tr =
     [Debug ''Received SIGTERM. Shutting down all reflection servers and cleaning up tracing...'',
      Called StopAll, Called CleanUpTracing]"
    and b: "drop 3 ?tr = [Settled StopAll, Settled CleanUpTracing, Exit 0]"
    and c: "reflectionServers (snd (sigterm_handler Resolves {} Resolves StopAll serving_host)) = []"
    and d: "httpServers (snd (sigterm_handler Resolves {} Resolves StopAll serving_host)) =
              httpServers serving_host"
    by simp_all
  have "?tr = take 3 ?tr @ drop 3 ?tr" by simp
  with a b have "?tr =
     [Debug ''Received SIGTERM. Shutting down all reflection servers and cleaning up tracing...'',
      Called StopAll, Called CleanUpTracing, Settled StopAll, Settled CleanUpTracing, Exit 0]"
    by (metis append_Cons append_Nil)
  with c d serving_host_servers show ?thesis by simp
qed

end
